theory Spec2Isabelle
  imports Main "HOL-Library.Log_Nat"
begin

section \<open>Calendar ingestion pipeline: \<open>calendar_service.py\<close> and \<open>dynamic_fetch.py\<close>\<close>

text \<open>
  The development embeds the ingestion path of the repository:
  \<^item> \<open>GoogleCalendarService.fetch_calendar_data\<close> (normalisation of the events that
    \<open>get_events\<close> returns into meeting records),
  \<^item> \<open>store_meetings_data\<close> (the insert / update / skip loop over the \<open>meetings\<close> table),
  \<^item> \<open>fetch_historical_data\<close> (the 31-day batch loop), and
  \<^item> \<open>main\<close> (the command line entry point).
  The calendar API, the PostgreSQL server and the clock are the environment: they appear
  as parameters of the functions that call them.
\<close>

subsection \<open>Exceptions\<close>

text \<open>
  Every handler in the two files is \<open>except Exception\<close>; \<open>sys.exit\<close> raises
  \<open>SystemExit\<close>, which is not an \<open>Exception\<close> and passes through such a handler.
\<close>

datatype exn = NameError | TypeError | ValueError | OtherError

datatype raised = SystemExit nat | Exc exn

subsection \<open>Time values\<close>

text \<open>
  A \<open>timedelta\<close> is a whole number of microseconds. A \<open>datetime\<close> is either naive or
  aware; \<open>micros\<close> is its distance from the epoch (as UTC instant when aware, as wall-clock
  reading when naive). Subtracting or comparing a naive and an aware value raises
  \<open>TypeError\<close>. The year range of Python's \<open>datetime\<close> (1 to 9999) is not modelled.
\<close>

type_synonym timedelta = int

definition timedelta_days :: "int \<Rightarrow> timedelta" where
  "timedelta_days d = d * 86400000000"

record datetime =
  tz_aware :: bool
  micros :: int

definition dt_sub :: "datetime \<Rightarrow> datetime \<Rightarrow> exn + timedelta" where
  "dt_sub a b = (if tz_aware a = tz_aware b then Inr (micros a - micros b) else Inl TypeError)"

subsection \<open>Float arithmetic of the duration computation\<close>

text \<open>
  \<open>int((end_dt - start_dt).total_seconds() / 60)\<close> goes through two float operations:
  \<open>total_seconds\<close> is the true division of the microsecond count by \<open>10**6\<close>, and
  \<open>/ 60\<close> is a float division. Both are correctly rounded to binary64 (round to nearest,
  ties to even). \<open>binary64_round\<close> is that rounding on the rationals: the value is scaled
  by \<open>2^1074\<close> (the smallest subnormal becomes 1), the last \<open>binary64_drop\<close> bits below a
  53-bit significand are rounded away, and the scaling is undone. Overflow to infinity is
  not modelled (the operands here stay far below \<open>2^1024\<close>).
\<close>

definition round_half_even :: "rat \<Rightarrow> int" where
  "round_half_even x =
     (let f = \<lfloor>x\<rfloor>; d = x - of_int f
      in if d < 1 / 2 then f
         else if 1 / 2 < d then f + 1
         else if even f then f else f + 1)"

definition binary64_drop :: "rat \<Rightarrow> nat" where
  "binary64_drop x = nat (bitlen \<lfloor>\<bar>x\<bar> * 2 ^ 1074\<rfloor> - 53)"

definition binary64_round :: "rat \<Rightarrow> rat" where
  "binary64_round x =
     sgn x * (of_int (round_half_even (\<bar>x\<bar> * 2 ^ 1074 / 2 ^ binary64_drop x))
              * 2 ^ binary64_drop x / 2 ^ 1074)"

definition total_seconds :: "timedelta \<Rightarrow> rat" where
  "total_seconds td = binary64_round (of_int td / 1000000)"

definition float_div :: "rat \<Rightarrow> rat \<Rightarrow> rat" where
  "float_div x y = binary64_round (x / y)"

text \<open>\<open>int(x)\<close> on a float truncates toward zero.\<close>

definition py_int :: "rat \<Rightarrow> int" where
  "py_int x = (if 0 \<le> x then \<lfloor>x\<rfloor> else \<lceil>x\<rceil>)"

definition minutes_between :: "timedelta \<Rightarrow> int" where
  "minutes_between td = py_int (float_div (total_seconds td) 60)"

text \<open>The two readings of the specification: truncation of the exact quotient, and rounding.\<close>

definition truncated_minutes :: "timedelta \<Rightarrow> int" where
  "truncated_minutes td = sgn td * (\<bar>td\<bar> div 60000000)"

definition rounded_minutes :: "timedelta \<Rightarrow> int" where
  "rounded_minutes td = round_half_even (of_int td / 60000000)"

subsection \<open>Events as \<open>get_events\<close> returns them\<close>

text \<open>
  \<open>get_events\<close> rebuilds every API event as a dictionary with the keys \<open>id\<close>,
  \<open>summary\<close>, \<open>start\<close>, \<open>end\<close>, \<open>organizer\<close>, \<open>attendees\<close>, \<open>hangout_link\<close>,
  \<open>html_link\<close>, ... . A key that the API left out is \<open>None\<close> in an optional field. The
  keys \<open>hangoutLink\<close>, \<open>conferenceData\<close> and \<open>htmlLink\<close> that \<open>fetch_calendar_data\<close> reads
  are not among the keys \<open>get_events\<close> writes, so those reads yield their defaults.
\<close>

record time_info =
  dateTime :: "string option"
  date :: "string option"

record attendee =
  email :: "string option"
  responseStatus :: "string option"

record event =
  ev_id :: "string option"
  ev_summary :: string
  ev_start :: time_info
  ev_end :: time_info
  ev_organizer_email :: "string option"
  ev_attendees :: "attendee list"
  ev_hangout_link :: "string option"
  ev_html_link :: "string option"

subsection \<open>Meeting records\<close>

text \<open>The dictionary that \<open>fetch_calendar_data\<close> builds for one event.\<close>

record meeting =
  event_id :: "string option"
  calendar_id :: string
  organizer_email :: string
  user_email :: string
  summary :: string
  start_time :: datetime
  end_time :: datetime
  duration_minutes :: int
  attendees_count :: nat
  attendees_accepted :: nat
  attendees_declined :: nat
  attendees_tentative :: nat
  attendees_needs_action :: nat
  attendees_accepted_emails :: string
  meet_link :: string
  html_link :: string
  is_one_on_one :: bool
  has_manager_attendee :: bool
  unique_departments :: int
  departments_list :: string
  department :: string
  division :: string
  subdepartment :: string
  is_manager :: bool

subsection \<open>\<open>fetch_calendar_data\<close>\<close>

text \<open>\<open>s.replace('Z', '+00:00')\<close>: every \<open>Z\<close> of the string is replaced.\<close>

definition replace_Z :: "string \<Rightarrow> string" where
  "replace_Z s = concat (map (\<lambda>c. if c = CHR ''Z'' then ''+00:00'' else [c]) s)"

text \<open>\<open>info.get('dateTime', info.get('date'))\<close>\<close>

definition time_of_info :: "time_info \<Rightarrow> string option" where
  "time_of_info info = (case dateTime info of Some s \<Rightarrow> Some s | None \<Rightarrow> date info)"

text \<open>Truthiness of an optional string: \<open>None\<close> and the empty string are false.\<close>

definition truthy :: "string option \<Rightarrow> bool" where
  "truthy v = (case v of None \<Rightarrow> False | Some s \<Rightarrow> s \<noteq> [])"

definition string_of :: "string option \<Rightarrow> string" where
  "string_of v = (case v of None \<Rightarrow> [] | Some s \<Rightarrow> s)"

text \<open>
  The \<open>try\<close> block around the duration: \<open>datetime.fromisoformat\<close> is the parameter
  \<open>fromisoformat\<close> (\<open>None\<close> where it raises \<open>ValueError\<close>); the subtraction raises on a naive
  and an aware operand. The block yields both parsed values and the minutes.
\<close>

definition calculate_duration ::
  "(string \<Rightarrow> datetime option) \<Rightarrow> string \<Rightarrow> string \<Rightarrow> exn + (datetime \<times> datetime \<times> int)" where
  "calculate_duration fromisoformat start_str end_str =
     (case fromisoformat (replace_Z start_str) of
        None \<Rightarrow> Inl ValueError
      | Some start_dt \<Rightarrow>
          (case fromisoformat (replace_Z end_str) of
             None \<Rightarrow> Inl ValueError
           | Some end_dt \<Rightarrow>
               (case dt_sub end_dt start_dt of
                  Inl e \<Rightarrow> Inl e
                | Inr td \<Rightarrow> Inr (start_dt, end_dt, minutes_between td))))"

text \<open>
  The counting loop over the attendees: a four-way \<open>if\<close>/\<open>elif\<close> chain with no \<open>else\<close>.
  The state is the four counters and the list of accepted e-mail addresses.
\<close>

record status_counts =
  n_accepted :: nat
  n_declined :: nat
  n_tentative :: nat
  n_needs_action :: nat
  accepted_emails :: "string list"

definition response_status :: "attendee \<Rightarrow> string" where
  "response_status a = (case responseStatus a of None \<Rightarrow> ''needsAction'' | Some s \<Rightarrow> s)"

definition count_attendee :: "status_counts \<Rightarrow> attendee \<Rightarrow> status_counts" where
  "count_attendee c a =
     (if response_status a = ''accepted'' then
        c\<lparr>n_accepted := n_accepted c + 1,
          accepted_emails := accepted_emails c @ [case email a of None \<Rightarrow> [] | Some e \<Rightarrow> e]\<rparr>
      else if response_status a = ''declined'' then c\<lparr>n_declined := n_declined c + 1\<rparr>
      else if response_status a = ''tentative'' then c\<lparr>n_tentative := n_tentative c + 1\<rparr>
      else if response_status a = ''needsAction'' then c\<lparr>n_needs_action := n_needs_action c + 1\<rparr>
      else c)"

definition count_attendees :: "attendee list \<Rightarrow> status_counts" where
  "count_attendees as =
     foldl count_attendee
       \<lparr>n_accepted = 0, n_declined = 0, n_tentative = 0, n_needs_action = 0,
        accepted_emails = []\<rparr> as"

text \<open>\<open>','.join(xs)\<close>\<close>

fun join_comma :: "string list \<Rightarrow> string" where
  "join_comma [] = []"
| "join_comma [x] = x"
| "join_comma (x # y # ys) = x @ '','' @ join_comma (y # ys)"

text \<open>
  The body of the loop over the events: \<open>None\<close> where the body ends in \<open>continue\<close>
  (a missing or empty time, or an exception in the duration block), the record otherwise.
\<close>

definition normalize_event :: "(string \<Rightarrow> datetime option) \<Rightarrow> event \<Rightarrow> meeting option" where
  "normalize_event fromisoformat ev =
     (let start_time = time_of_info (ev_start ev);
          end_time = time_of_info (ev_end ev)
      in if \<not> truthy start_time \<or> \<not> truthy end_time then None
         else
           (case calculate_duration fromisoformat (string_of start_time) (string_of end_time) of
              Inl e \<Rightarrow> None
            | Inr (start_dt, end_dt, minutes) \<Rightarrow>
                (let organizer = (case ev_organizer_email ev of
                                    None \<Rightarrow> ''unknown@domain.com'' | Some e \<Rightarrow> e);
                     counts = count_attendees (ev_attendees ev);
                     n = length (ev_attendees ev)
                 in Some
                   \<lparr>event_id = ev_id ev,
                    calendar_id = ''primary'',
                    organizer_email = organizer,
                    user_email = organizer,
                    summary = ev_summary ev,
                    start_time = start_dt,
                    end_time = end_dt,
                    duration_minutes = minutes,
                    attendees_count = n,
                    attendees_accepted = n_accepted counts,
                    attendees_declined = n_declined counts,
                    attendees_tentative = n_tentative counts,
                    attendees_needs_action = n_needs_action counts,
                    attendees_accepted_emails = join_comma (accepted_emails counts),
                    meet_link = [],
                    html_link = [],
                    is_one_on_one = (n = 2),
                    has_manager_attendee = False,
                    unique_departments = 1,
                    departments_list = ''Unknown'',
                    department = ''Unknown'',
                    division = ''Unknown'',
                    subdepartment = ''Unknown'',
                    is_manager = False\<rparr>)))"

fun fetch_calendar_data_loop ::
  "(string \<Rightarrow> datetime option) \<Rightarrow> event list \<Rightarrow> meeting list \<Rightarrow> meeting list" where
  "fetch_calendar_data_loop fromisoformat [] meeting_data = meeting_data"
| "fetch_calendar_data_loop fromisoformat (ev # evs) meeting_data =
     fetch_calendar_data_loop fromisoformat evs
       (case normalize_event fromisoformat ev of
          None \<Rightarrow> meeting_data
        | Some meeting_record \<Rightarrow> meeting_data @ [meeting_record])"

text \<open>\<open>events\<close> is what \<open>get_events\<close> returned for the requested range.\<close>

definition fetch_calendar_data :: "(string \<Rightarrow> datetime option) \<Rightarrow> event list \<Rightarrow> meeting list" where
  "fetch_calendar_data fromisoformat events = fetch_calendar_data_loop fromisoformat events []"

subsection \<open>The \<open>meetings\<close> table\<close>

text \<open>
  A row has the columns of the \<open>CREATE TABLE meetings\<close> statement in
  \<open>cleanup_database.py\<close> (the schema that has every column the \<open>INSERT\<close> names).
  \<open>user_email\<close>, \<open>start_time\<close> and \<open>end_time\<close> are \<open>NOT NULL\<close>; every other column is
  nullable. \<open>id\<close> is \<open>SERIAL\<close>, \<open>created_at\<close> defaults to the current timestamp, and
  \<open>event_id\<close> is \<open>UNIQUE\<close> (which, in SQL, lets any number of rows hold \<open>NULL\<close>).
  \<open>start_time\<close>, \<open>end_time\<close> and \<open>created_at\<close> are \<open>TIMESTAMP\<close> columns without time
  zone: they hold a wall-clock reading, given by its microseconds.
\<close>

record row =
  c_id :: nat
  c_user_email :: string
  c_department :: "string option"
  c_division :: "string option"
  c_subdepartment :: "string option"
  c_is_manager :: "bool option"
  c_start_time :: int
  c_end_time :: int
  c_duration_minutes :: "int option"
  c_attendees_count :: "nat option"
  c_attendees_accepted :: "nat option"
  c_attendees_declined :: "nat option"
  c_attendees_tentative :: "nat option"
  c_attendees_needs_action :: "nat option"
  c_attendees_accepted_emails :: "string option"
  c_summary :: "string option"
  c_meet_link :: "string option"
  c_html_link :: "string option"
  c_is_one_on_one :: "bool option"
  c_has_manager_attendee :: "bool option"
  c_unique_departments :: "int option"
  c_departments_list :: "string option"
  c_created_at :: int
  c_event_id :: "string option"
  c_calendar_id :: "string option"
  c_organizer_email :: "string option"

text \<open>
  The table with the state of its \<open>id\<close> sequence, and the \<open>TimeZone\<close> setting that the
  sessions of this code inherit from the server (the code sets none): \<open>time_zone d t\<close> is
  the offset from UTC, in microseconds, that the zone has at the instant \<open>t\<close>.
\<close>

record db =
  meetings :: "row list"
  id_seq :: nat
  time_zone :: "int \<Rightarrow> int"

text \<open>
  A \<open>datetime\<close> parameter written into a \<open>TIMESTAMP\<close> column: a naive value is stored as
  it is, an aware value is sent with its offset and stored as the reading of its instant
  in the zone of the session.
\<close>

definition to_timestamp :: "(int \<Rightarrow> int) \<Rightarrow> datetime \<Rightarrow> int" where
  "to_timestamp zone dt = (if tz_aware dt then micros dt + zone (micros dt) else micros dt)"

text \<open>\<open>DELETE FROM meetings\<close>\<close>

definition sql_delete_all :: "db \<Rightarrow> db" where
  "sql_delete_all d = d\<lparr>meetings := []\<rparr>"

text \<open>
  \<open>SELECT id FROM meetings WHERE event_id = %s\<close> followed by \<open>fetchone()\<close>. A \<open>None\<close>
  parameter is sent as \<open>NULL\<close>, and \<open>event_id = NULL\<close> is true of no row.
\<close>

definition matches_event_id :: "string option \<Rightarrow> row \<Rightarrow> bool" where
  "matches_event_id k r = (case k of None \<Rightarrow> False | Some e \<Rightarrow> c_event_id r = Some e)"

definition sql_select_id :: "db \<Rightarrow> string option \<Rightarrow> nat option" where
  "sql_select_id d k = map_option c_id (find (matches_event_id k) (meetings d))"

text \<open>\<open>UPDATE meetings SET ... WHERE event_id = %s\<close> with the eleven values of the record.\<close>

definition update_row :: "(int \<Rightarrow> int) \<Rightarrow> meeting \<Rightarrow> row \<Rightarrow> row" where
  "update_row zone m r =
     r\<lparr>c_summary := Some (summary m),
       c_start_time := to_timestamp zone (start_time m),
       c_end_time := to_timestamp zone (end_time m),
       c_duration_minutes := Some (duration_minutes m),
       c_attendees_count := Some (attendees_count m),
       c_attendees_accepted := Some (attendees_accepted m),
       c_attendees_declined := Some (attendees_declined m),
       c_attendees_tentative := Some (attendees_tentative m),
       c_attendees_needs_action := Some (attendees_needs_action m),
       c_meet_link := Some (meet_link m),
       c_html_link := Some (html_link m)\<rparr>"

definition sql_update :: "meeting \<Rightarrow> db \<Rightarrow> db" where
  "sql_update m d =
     d\<lparr>meetings := map (\<lambda>r. if matches_event_id (event_id m) r
                             then update_row (time_zone d) m r else r)
                        (meetings d)\<rparr>"

text \<open>
  \<open>INSERT INTO meetings (...) VALUES (...) ON CONFLICT (event_id) DO NOTHING\<close> with the
  twenty-three values of the record. The new row takes the next value of the sequence and
  the time \<open>now\<close> of the transaction; \<open>organizer_email\<close> is not among the inserted columns.
  The sequence advances also when the conflict suppresses the row. The second component
  is \<open>cursor.rowcount\<close>.
\<close>

definition new_row :: "(int \<Rightarrow> int) \<Rightarrow> int \<Rightarrow> nat \<Rightarrow> meeting \<Rightarrow> row" where
  "new_row zone now i m =
     \<lparr>c_id = i,
      c_user_email = user_email m,
      c_department = Some (department m),
      c_division = Some (division m),
      c_subdepartment = Some (subdepartment m),
      c_is_manager = Some (is_manager m),
      c_start_time = to_timestamp zone (start_time m),
      c_end_time = to_timestamp zone (end_time m),
      c_duration_minutes = Some (duration_minutes m),
      c_attendees_count = Some (attendees_count m),
      c_attendees_accepted = Some (attendees_accepted m),
      c_attendees_declined = Some (attendees_declined m),
      c_attendees_tentative = Some (attendees_tentative m),
      c_attendees_needs_action = Some (attendees_needs_action m),
      c_attendees_accepted_emails = Some (attendees_accepted_emails m),
      c_summary = Some (summary m),
      c_meet_link = Some (meet_link m),
      c_html_link = Some (html_link m),
      c_is_one_on_one = Some (is_one_on_one m),
      c_has_manager_attendee = Some (has_manager_attendee m),
      c_unique_departments = Some (unique_departments m),
      c_departments_list = Some (departments_list m),
      c_created_at = now,
      c_event_id = event_id m,
      c_calendar_id = Some (calendar_id m),
      c_organizer_email = None\<rparr>"

definition sql_insert :: "int \<Rightarrow> meeting \<Rightarrow> db \<Rightarrow> db \<times> nat" where
  "sql_insert now m d =
     (if \<exists>r \<in> set (meetings d). matches_event_id (event_id m) r
      then (d\<lparr>id_seq := id_seq d + 1\<rparr>, 0)
      else (d\<lparr>meetings := meetings d @ [new_row (time_zone d) now (id_seq d) m],
              id_seq := id_seq d + 1\<rparr>, 1))"

subsection \<open>\<open>store_meetings_data\<close>\<close>

text \<open>
  The environment of one call: whether \<open>get_db_connection\<close> yields a connection (it raises
  after its retries otherwise), the time of the transaction, and for every position of the
  batch whether a statement issued for that record raises, and whether the progress
  \<open>print\<close> after it raises (a standard output that is closed while the loop runs: a pipe
  whose reader has gone, a full disk). A statement that raises changes no row, and the
  handler inside the loop counts the record as skipped. The progress \<open>print\<close> stands inside
  the same \<open>try\<close>, after the \<open>INSERT\<close> and after the counter for it has been incremented,
  and is reached for every hundredth record that took the \<open>INSERT\<close> path (the \<open>UPDATE\<close>
  path leaves the body by \<open>continue\<close> before it): when it raises, the row of the \<open>INSERT\<close>
  stays and the same handler adds one to \<open>skipped\<close>. What a server keeps of a transaction
  in which a statement failed is outside the source; the theorems that say which rows the
  table holds after a call are stated for batches in which no statement raises. The
  statements and the \<open>print\<close> calls outside the loop (\<open>DELETE\<close>, the commit, the summary,
  the statistics queries) are taken to succeed once the connection is open.
\<close>

record store_env =
  connect_ok :: bool
  txn_now :: int
  raises :: "nat \<Rightarrow> bool"
  print_raises :: "nat \<Rightarrow> bool"

record counters =
  inserted :: nat
  updated :: nat
  skipped :: nat

text \<open>The body of the loop for the record at position \<open>i\<close>.\<close>

definition store_one :: "store_env \<Rightarrow> bool \<Rightarrow> nat \<Rightarrow> meeting \<Rightarrow> db \<times> counters \<Rightarrow> db \<times> counters" where
  "store_one env clear_existing i m s =
     (let d = fst s; c = snd s
      in if raises env i then (d, c\<lparr>skipped := skipped c + 1\<rparr>)
         else if \<not> clear_existing \<and> sql_select_id d (event_id m) \<noteq> None
           then (sql_update m d, c\<lparr>updated := updated c + 1\<rparr>)
         else
           (let res = sql_insert (txn_now env) m d;
                c' = (if 0 < snd res then c\<lparr>inserted := inserted c + 1\<rparr>
                      else c\<lparr>skipped := skipped c + 1\<rparr>)
            in if (i + 1) mod 100 = 0 \<and> print_raises env i
               then (fst res, c'\<lparr>skipped := skipped c' + 1\<rparr>)
               else (fst res, c')))"

fun store_loop ::
  "store_env \<Rightarrow> bool \<Rightarrow> nat \<Rightarrow> meeting list \<Rightarrow> db \<times> counters \<Rightarrow> db \<times> counters" where
  "store_loop env clear_existing i [] s = s"
| "store_loop env clear_existing i (m # ms) s =
     store_loop env clear_existing (i + 1) ms (store_one env clear_existing i m s)"

text \<open>The statements between opening the connection and the commit.\<close>

definition store_batch :: "store_env \<Rightarrow> meeting list \<Rightarrow> bool \<Rightarrow> db \<Rightarrow> db \<times> counters" where
  "store_batch env meetings_data clear_existing d =
     store_loop env clear_existing 0 meetings_data
       (if clear_existing then sql_delete_all d else d,
        \<lparr>inserted = 0, updated = 0, skipped = 0\<rparr>)"

text \<open>
  The function returns \<open>True\<close> after the commit and \<open>False\<close> from its outer handler; the
  second component is the table afterwards.
\<close>

definition store_meetings_data :: "store_env \<Rightarrow> meeting list \<Rightarrow> bool \<Rightarrow> db \<Rightarrow> bool \<times> db" where
  "store_meetings_data env meetings_data clear_existing d =
     (if \<not> connect_ok env then (False, d)
      else (True, fst (store_batch env meetings_data clear_existing d)))"

subsection \<open>\<open>fetch_historical_data\<close>\<close>

text \<open>
  The state of the \<open>while\<close> loop. \<open>current_start\<close> and \<open>end_date\<close> are aware UTC values
  (they derive from \<open>datetime.now(timezone.utc)\<close>) and are given by their microseconds.
  \<open>fetch_log\<close> is not in the source: it records, in order, the window of every call of
  \<open>service.fetch_calendar_data\<close> and whether the call returned.
\<close>

record 'm loop_state =
  current_start :: int
  current_batch :: nat
  all_meetings :: "'m list"
  fetch_log :: "((int \<times> int) \<times> bool) list"

text \<open>
  \<open>fetch n a b\<close> is the outcome of the \<open>n\<close>-th call, on the window from \<open>a\<close> to \<open>b\<close>:
  \<open>Inl\<close> when the call (or the pause after it) raises, \<open>Inr\<close> with the records otherwise.
  \<open>historical_step\<close> is the body of the loop. The handler of the inner \<open>try\<close> logs and
  executes \<open>continue\<close>, which returns to the loop test without reaching
  \<open>current_start = current_end\<close>.
\<close>

definition historical_step ::
  "(nat \<Rightarrow> int \<Rightarrow> int \<Rightarrow> exn + 'm list) \<Rightarrow> int \<Rightarrow> 'm loop_state \<Rightarrow> 'm loop_state" where
  "historical_step fetch end_date st =
     (let batch = current_batch st + 1;
          current_end = min (current_start st + timedelta_days 31) end_date
      in case fetch batch (current_start st) current_end of
           Inr batch_meetings \<Rightarrow>
             \<lparr>current_start = current_end,
              current_batch = batch,
              all_meetings = (if batch_meetings \<noteq> [] then all_meetings st @ batch_meetings
                              else all_meetings st),
              fetch_log = fetch_log st @ [((current_start st, current_end), True)]\<rparr>
         | Inl e \<Rightarrow>
             st\<lparr>current_batch := batch,
                fetch_log := fetch_log st @ [((current_start st, current_end), False)]\<rparr>)"

text \<open>The \<open>while\<close> loop. A run that never leaves the loop has the value \<open>None\<close>.\<close>

partial_function (option) historical_loop ::
  "(nat \<Rightarrow> int \<Rightarrow> int \<Rightarrow> exn + 'm list) \<Rightarrow> int \<Rightarrow> 'm loop_state \<Rightarrow> 'm loop_state option" where
  "historical_loop fetch end_date st =
     (if current_start st < end_date
      then historical_loop fetch end_date (historical_step fetch end_date st)
      else Some st)"

declare historical_loop.simps [code]

definition initial_state :: "int \<Rightarrow> 'm loop_state" where
  "initial_state start_date =
     \<lparr>current_start = start_date, current_batch = 0, all_meetings = [], fetch_log = []\<rparr>"

text \<open>The windows of all calls, and of the calls that returned.\<close>

definition windows_tried :: "'m loop_state \<Rightarrow> (int \<times> int) list" where
  "windows_tried st = map fst (fetch_log st)"


text \<open>
  \<open>authenticated\<close> is the result of \<open>service.authenticate()\<close>, \<open>now\<close> the clock reading.
  The result is \<open>None\<close> when the loop never ends, and otherwise the returned flag with the
  table after the call. The outer handler returns \<open>False\<close> for an exception raised outside
  the inner \<open>try\<close>; with the year range of \<open>datetime\<close> left out, the date arithmetic
  raises none.
\<close>

definition fetch_historical_data ::
  "bool \<Rightarrow> int \<Rightarrow> (nat \<Rightarrow> int \<Rightarrow> int \<Rightarrow> exn + meeting list) \<Rightarrow> store_env \<Rightarrow> int \<Rightarrow> db
     \<Rightarrow> (bool \<times> db) option" where
  "fetch_historical_data authenticated now fetch env years_back d =
     (if \<not> authenticated then Some (False, d)
      else
        (let end_date = now;
             start_date = end_date - timedelta_days (years_back * 365)
         in case historical_loop fetch end_date (initial_state start_date) of
              None \<Rightarrow> None
            | Some st \<Rightarrow>
                if all_meetings st = [] then Some (False, d)
                else Some (store_meetings_data env (all_meetings st) True d)))"

subsection \<open>\<open>main\<close>\<close>

text \<open>
  The namespace that \<open>parse_args\<close> returns (on malformed arguments \<open>argparse\<close> itself
  ends the process before the \<open>try\<close> statement is reached).
\<close>

record args =
  years :: "int option"
  days :: "int option"
  daily :: bool
  start_date :: "string option"
  end_date :: "string option"

definition required_env_vars :: "string list" where
  "required_env_vars = [''POSTGRES_HOST'', ''POSTGRES_DB'', ''POSTGRES_USER'', ''POSTGRES_PASSWORD'']"

definition missing_vars :: "(string \<Rightarrow> string option) \<Rightarrow> string list" where
  "missing_vars getenv = filter (\<lambda>var. \<not> truthy (getenv var)) required_env_vars"

text \<open>
  The names bound at the top level of \<open>dynamic_fetch.py\<close>: its imports, \<open>logger\<close> and its
  four functions. Reading any other global name raises \<open>NameError\<close>.
\<close>

definition module_globals :: "string list" where
  "module_globals =
     [''os'', ''sys'', ''logging'', ''argparse'', ''datetime'', ''timedelta'', ''timezone'',
      ''time'', ''GoogleCalendarService'', ''get_db_connection'', ''logger'',
      ''fetch_historical_data'', ''fetch_incremental_data'', ''store_meetings_data'', ''main'']"

definition load_global :: "string \<Rightarrow> raised + unit" where
  "load_global name = (if name \<in> set module_globals then Inr () else Inl (Exc NameError))"

text \<open>
  The four method calls of \<open>main\<close> on the object \<open>fetcher\<close>. What they would do is the
  parameter \<open>methods\<close>: an exception or the returned flag.
\<close>

datatype fetcher_call =
    Fetch_daily_update
  | Fetch_historical_data int
  | Fetch_recent_data int
  | Fetch_date_range string string

definition truthy_int :: "int option \<Rightarrow> bool" where
  "truthy_int v = (case v of None \<Rightarrow> False | Some n \<Rightarrow> n \<noteq> 0)"

definition int_of :: "int option \<Rightarrow> int" where
  "int_of v = (case v of None \<Rightarrow> 0 | Some n \<Rightarrow> n)"

definition call_method :: "(fetcher_call \<Rightarrow> exn + bool) \<Rightarrow> fetcher_call \<Rightarrow> raised + bool" where
  "call_method methods c = (case methods c of Inl e \<Rightarrow> Inl (Exc e) | Inr b \<Rightarrow> Inr b)"

text \<open>The body of the \<open>try\<close> statement of \<open>main\<close>.\<close>

definition main_try :: "(fetcher_call \<Rightarrow> exn + bool) \<Rightarrow> args \<Rightarrow> raised + unit" where
  "main_try methods a =
     (case load_global ''DynamicCalendarFetcher'' of
        Inl r \<Rightarrow> Inl r
      | Inr fetcher \<Rightarrow>
          (case
             (if daily a then call_method methods Fetch_daily_update
              else if truthy_int (years a) then
                call_method methods (Fetch_historical_data (int_of (years a)))
              else if truthy_int (days a) then
                call_method methods (Fetch_recent_data (int_of (days a)))
              else if truthy (start_date a) \<and> truthy (end_date a) then
                call_method methods (Fetch_date_range (string_of (start_date a)) (string_of (end_date a)))
              else Inl (SystemExit 1))
           of
             Inl r \<Rightarrow> Inl r
           | Inr success \<Rightarrow> if success then Inr () else Inl (SystemExit 1)))"

text \<open>
  The exit status of the process: \<open>sys.exit(1)\<close> before the \<open>try\<close> when a variable is
  missing; inside it, \<open>SystemExit\<close> passes the handler, any \<open>Exception\<close> is turned into
  \<open>sys.exit(1)\<close>, and a normal return ends the process with status 0.
\<close>

definition main :: "(string \<Rightarrow> string option) \<Rightarrow> (fetcher_call \<Rightarrow> exn + bool) \<Rightarrow> args \<Rightarrow> nat" where
  "main getenv methods a =
     (if missing_vars getenv \<noteq> [] then 1
      else
        (case main_try methods a of
           Inr u \<Rightarrow> 0
         | Inl (SystemExit n) \<Rightarrow> n
         | Inl (Exc e) \<Rightarrow> 1))"

subsection \<open>Notions used in the statements\<close>

text \<open>The four response statuses that the counting loop tests for.\<close>

definition recognised :: "string \<Rightarrow> bool" where
  "recognised s = (s = ''accepted'' \<or> s = ''declined'' \<or> s = ''tentative'' \<or> s = ''needsAction'')"

text \<open>An attendee whose \<open>responseStatus\<close> is present and is none of the four.\<close>

definition unrecognised :: "attendee \<Rightarrow> bool" where
  "unrecognised a = (\<not> recognised (response_status a))"

definition counts_as_needs_action :: "attendee \<Rightarrow> bool" where
  "counts_as_needs_action a =
     (responseStatus a = None \<or> responseStatus a = Some ''needsAction'')"

text \<open>The sum of the four counters of a record.\<close>

definition status_total :: "meeting \<Rightarrow> nat" where
  "status_total m =
     attendees_accepted m + attendees_declined m + attendees_tentative m
       + attendees_needs_action m"




text \<open>
  Position \<open>i\<close> of a batch holds the first record with its \<open>event_id\<close>, or a record
  without one. \<open>historical_rows\<close> are the rows of these records: the record at position
  \<open>i\<close> gets the \<open>i\<close>-th value of the sequence after \<open>seq\<close>.
\<close>

definition first_with_event_id :: "meeting list \<Rightarrow> nat \<Rightarrow> bool" where
  "first_with_event_id ms i \<longleftrightarrow>
     event_id (ms ! i) = None \<or> event_id (ms ! i) \<notin> set (map event_id (take i ms))"

definition historical_rows ::
  "(int \<Rightarrow> int) \<Rightarrow> int \<Rightarrow> nat \<Rightarrow> meeting list \<Rightarrow> row list" where
  "historical_rows zone now seq ms =
     map (\<lambda>i. new_row zone now (seq + i) (ms ! i))
       (filter (first_with_event_id ms) [0 ..< length ms])"

text \<open>The effect of one \<open>UPDATE\<close> on one row, and of the updates of a whole batch.\<close>

definition apply_update :: "(int \<Rightarrow> int) \<Rightarrow> row \<Rightarrow> meeting \<Rightarrow> row" where
  "apply_update zone r m =
     (if matches_event_id (event_id m) r then update_row zone m r else r)"

definition apply_updates :: "(int \<Rightarrow> int) \<Rightarrow> meeting list \<Rightarrow> row \<Rightarrow> row" where
  "apply_updates zone ms r = foldl (apply_update zone) r ms"

text \<open>No statement raises for the first \<open>n\<close> records of the batch.\<close>

definition quiet :: "store_env \<Rightarrow> nat \<Rightarrow> bool" where
  "quiet env n \<longleftrightarrow> (\<forall>i < n. \<not> raises env i)"

text \<open>
  A row carries the times of a record, as the \<open>TIMESTAMP\<close> columns hold them in the zone
  of the session; an event passes the checks of
  \<open>fetch_calendar_data\<close>: both times present and non-empty, both parsed, both naive or
  both aware. No check compares the two times.
\<close>

definition carries_times :: "(int \<Rightarrow> int) \<Rightarrow> meeting \<Rightarrow> row \<Rightarrow> bool" where
  "carries_times zone m r \<longleftrightarrow>
     c_start_time r = to_timestamp zone (start_time m)
     \<and> c_end_time r = to_timestamp zone (end_time m)
     \<and> c_duration_minutes r = Some (duration_minutes m)"

definition acceptable :: "(string \<Rightarrow> datetime option) \<Rightarrow> event \<Rightarrow> bool" where
  "acceptable fromisoformat ev =
     (case (time_of_info (ev_start ev), time_of_info (ev_end ev)) of
        (Some s, Some t) \<Rightarrow>
          s \<noteq> [] \<and> t \<noteq> [] \<and>
          (case (fromisoformat (replace_Z s), fromisoformat (replace_Z t)) of
             (Some a, Some b) \<Rightarrow> tz_aware a = tz_aware b
           | _ \<Rightarrow> False)
      | _ \<Rightarrow> False)"

text \<open>
  The number of counter increments; a position at which the loop counts its record twice
  (the statements did not raise, and the progress \<open>print\<close> of a hundredth record did); a
  record whose \<open>event_id\<close> no other record of the batch has.
\<close>

definition counted :: "counters \<Rightarrow> nat" where
  "counted c = inserted c + updated c + skipped c"

definition counted_twice :: "store_env \<Rightarrow> nat \<Rightarrow> bool" where
  "counted_twice env i \<longleftrightarrow> \<not> raises env i \<and> (i + 1) mod 100 = 0 \<and> print_raises env i"

definition alone_in_batch :: "meeting list \<Rightarrow> nat \<Rightarrow> bool" where
  "alone_in_batch ms i \<longleftrightarrow>
     event_id (ms ! i) = None
     \<or> (\<forall>j < length ms. j \<noteq> i \<longrightarrow> event_id (ms ! j) \<noteq> event_id (ms ! i))"

subsection \<open>Sample inputs\<close>

text \<open>
  The example of the specification: event \<open>abc123\<close> on 2024-01-01 from 09:00 to 09:30 UTC
  with one accepted and one declined attendee. \<open>sample_fromisoformat\<close> parses the
  timestamps that the samples use.
\<close>

definition sample_fromisoformat :: "string \<Rightarrow> datetime option" where
  "sample_fromisoformat =
     map_of
       [(''2024-01-01T09:00:00+00:00'', \<lparr>tz_aware = True, micros = 1704099600000000\<rparr>),
        (''2024-01-01T09:00:59+00:00'', \<lparr>tz_aware = True, micros = 1704099659000000\<rparr>),
        (''2024-01-01T09:30:00+00:00'', \<lparr>tz_aware = True, micros = 1704101400000000\<rparr>)]"

definition sample_event :: event where
  "sample_event =
     \<lparr>ev_id = Some ''abc123'',
      ev_summary = ''Sync'',
      ev_start = \<lparr>dateTime = Some ''2024-01-01T09:00:00Z'', date = None\<rparr>,
      ev_end = \<lparr>dateTime = Some ''2024-01-01T09:30:00Z'', date = None\<rparr>,
      ev_organizer_email = Some ''a@x.com'',
      ev_attendees =
        [\<lparr>email = Some ''a@x.com'', responseStatus = Some ''accepted''\<rparr>,
         \<lparr>email = Some ''b@x.com'', responseStatus = Some ''declined''\<rparr>],
      ev_hangout_link = None,
      ev_html_link = None\<rparr>"

definition sample_meeting :: meeting where
  "sample_meeting =
     \<lparr>event_id = Some ''abc123'',
      calendar_id = ''primary'',
      organizer_email = ''a@x.com'',
      user_email = ''a@x.com'',
      summary = ''Sync'',
      start_time = \<lparr>tz_aware = True, micros = 1704099600000000\<rparr>,
      end_time = \<lparr>tz_aware = True, micros = 1704101400000000\<rparr>,
      duration_minutes = 30,
      attendees_count = 2,
      attendees_accepted = 1,
      attendees_declined = 1,
      attendees_tentative = 0,
      attendees_needs_action = 0,
      attendees_accepted_emails = ''a@x.com'',
      meet_link = [],
      html_link = [],
      is_one_on_one = True,
      has_manager_attendee = False,
      unique_departments = 1,
      departments_list = ''Unknown'',
      department = ''Unknown'',
      division = ''Unknown'',
      subdepartment = ''Unknown'',
      is_manager = False\<rparr>"

definition sample_env :: store_env where
  "sample_env =
     \<lparr>connect_ok = True, txn_now = 1704153600000000, raises = (\<lambda>i. False),
      print_raises = (\<lambda>i. False)\<rparr>"

text \<open>A server whose zone is one hour ahead of UTC throughout.\<close>

definition sample_zone :: "int \<Rightarrow> int" where
  "sample_zone t = 3600000000"

definition empty_db :: db where
  "empty_db = \<lparr>meetings = [], id_seq = 1, time_zone = sample_zone\<rparr>"

definition sample_getenv :: "string \<Rightarrow> string option" where
  "sample_getenv =
     map_of
       [(''POSTGRES_HOST'', ''db.internal''), (''POSTGRES_DB'', ''calendar''),
        (''POSTGRES_USER'', ''ingest''), (''POSTGRES_PASSWORD'', ''secret'')]"

text \<open>
  Variants of the sample: an attendee list with a status outside the four values and one
  without a status; an event of 59 seconds; an event that ends when it starts.
\<close>

definition unrecognised_event :: event where
  "unrecognised_event =
     sample_event\<lparr>ev_attendees :=
       [\<lparr>email = Some ''a@x.com'', responseStatus = Some ''accepted''\<rparr>,
        \<lparr>email = Some ''b@x.com'', responseStatus = Some ''delegated''\<rparr>,
        \<lparr>email = Some ''c@x.com'', responseStatus = None\<rparr>]\<rparr>"

definition unrecognised_meeting :: meeting where
  "unrecognised_meeting =
     sample_meeting\<lparr>attendees_count := 3, attendees_declined := 0,
       attendees_needs_action := 1, is_one_on_one := False\<rparr>"

definition short_event :: event where
  "short_event =
     sample_event\<lparr>ev_end := \<lparr>dateTime = Some ''2024-01-01T09:00:59Z'', date = None\<rparr>\<rparr>"

definition short_meeting :: meeting where
  "short_meeting =
     sample_meeting\<lparr>end_time := \<lparr>tz_aware = True, micros = 1704099659000000\<rparr>,
       duration_minutes := 0\<rparr>"

definition instant_event :: event where
  "instant_event =
     sample_event\<lparr>ev_end := \<lparr>dateTime = Some ''2024-01-01T09:00:00Z'', date = None\<rparr>\<rparr>"

definition instant_meeting :: meeting where
  "instant_meeting =
     sample_meeting\<lparr>end_time := \<lparr>tz_aware = True, micros = 1704099600000000\<rparr>,
       duration_minutes := 0\<rparr>"


definition empty_fetch :: "nat \<Rightarrow> int \<Rightarrow> int \<Rightarrow> exn + meeting list" where
  "empty_fetch n a b = Inr []"

definition flaky_fetch :: "nat \<Rightarrow> int \<Rightarrow> int \<Rightarrow> exn + meeting list" where
  "flaky_fetch n a b = (if n = 1 then Inl OtherError else Inr [])"

definition stuck_fetch :: "nat \<Rightarrow> int \<Rightarrow> int \<Rightarrow> exn + meeting list" where
  "stuck_fetch n a b = (if a = 0 then Inl OtherError else Inr [])"

definition sample_db :: db where
  "sample_db =
     \<lparr>meetings = [new_row sample_zone 1700000000000000 1 sample_meeting], id_seq = 2,
      time_zone = sample_zone\<rparr>"

text \<open>
  Records for the store: the sample with a changed summary, and the sample without an
  \<open>event_id\<close>.
\<close>

definition rescheduled_meeting :: meeting where
  "rescheduled_meeting = sample_meeting\<lparr>summary := ''Sync (Rescheduled)''\<rparr>"

definition anonymous_meeting :: meeting where
  "anonymous_meeting = sample_meeting\<lparr>event_id := None\<rparr>"

text \<open>
  An event that ends half an hour before it starts, and an environment in which no
  statement raises and every progress \<open>print\<close> does (the standard output is unbuffered
  and its reader goes away while the loop runs).
\<close>

definition reversed_event :: event where
  "reversed_event =
     sample_event\<lparr>ev_start := \<lparr>dateTime = Some ''2024-01-01T09:30:00Z'', date = None\<rparr>,
       ev_end := \<lparr>dateTime = Some ''2024-01-01T09:00:00Z'', date = None\<rparr>\<rparr>"

definition reversed_meeting :: meeting where
  "reversed_meeting =
     sample_meeting\<lparr>start_time := \<lparr>tz_aware = True, micros = 1704101400000000\<rparr>,
       end_time := \<lparr>tz_aware = True, micros = 1704099600000000\<rparr>,
       duration_minutes := - 30\<rparr>"

definition broken_stdout_env :: store_env where
  "broken_stdout_env = sample_env\<lparr>print_raises := (\<lambda>i. True)\<rparr>"

section \<open>Properties\<close>

subsection \<open>The counters of \<open>store_meetings_data\<close>\<close>

lemma store_one_counted_historical:
  "counted (snd (store_one env True i m s))
   = counted (snd s) + 1 + (if counted_twice env i then 1 else 0)"
  by (simp add: store_one_def Let_def counted_def counted_twice_def)

lemma store_loop_counted_historical:
  "counted (snd (store_loop env True i ms s))
   = counted (snd s) + length ms + length (filter (counted_twice env) [i ..< i + length ms])"
proof (induction ms arbitrary: i s)
  case Nil
  show ?case by simp
next
  case (Cons m ms)
  have "[i ..< i + length (m # ms)] = i # [Suc i ..< Suc i + length ms]"
    using upt_conv_Cons[of i "i + length (m # ms)"] by simp
  then show ?case
    unfolding store_loop.simps by (simp add: Cons.IH store_one_counted_historical)
qed

lemma store_one_counted:
  assumes "\<not> ((i + 1) mod 100 = 0 \<and> print_raises env i)"
  shows "counted (snd (store_one env clr i m s)) = counted (snd s) + 1"
  using assms by (auto simp: store_one_def Let_def counted_def)

lemma store_one_counted_bounds:
  "counted (snd s) + 1 \<le> counted (snd (store_one env clr i m s))
   \<and> counted (snd (store_one env clr i m s)) \<le> counted (snd s) + 2"
  by (simp add: store_one_def Let_def counted_def)

text \<open>Where no progress \<open>print\<close> raises, every record is counted once, in both modes.\<close>

lemma store_loop_counted:
  assumes "\<forall>j. i \<le> j \<and> j < i + length ms \<longrightarrow> \<not> ((j + 1) mod 100 = 0 \<and> print_raises env j)"
  shows "counted (snd (store_loop env clr i ms s)) = counted (snd s) + length ms"
  using assms
proof (induction ms arbitrary: i s)
  case Nil
  show ?case by simp
next
  case (Cons m ms)
  from Cons.prems have here: "\<not> ((i + 1) mod 100 = 0 \<and> print_raises env i)"
    and rest: "\<forall>j. i + 1 \<le> j \<and> j < i + 1 + length ms \<longrightarrow> \<not> ((j + 1) mod 100 = 0 \<and> print_raises env j)"
    by simp_all
  show ?case
    unfolding store_loop.simps Cons.IH[OF rest] store_one_counted[OF here] by simp
qed

lemma counter_conservation_quiet_stdout:
  assumes "\<forall>j < length meetings_data. \<not> ((j + 1) mod 100 = 0 \<and> print_raises env j)"
  shows "counted (snd (store_batch env meetings_data clear_existing d)) = length meetings_data"
  unfolding store_batch_def using store_loop_counted[of 0 meetings_data env clear_existing] assms
  by (simp add: counted_def)

lemma filter_counted_twice_100:
  "filter (counted_twice broken_stdout_env) [0 ..< 100] = [99]"
proof -
  have "filter (counted_twice broken_stdout_env) [0 ..< 99] = []"
    by (auto simp: filter_empty_conv counted_twice_def)
  moreover have "counted_twice broken_stdout_env 99"
    by (simp add: counted_twice_def broken_stdout_env_def sample_env_def)
  moreover have "[0 ..< 100] = [0 ..< 99] @ [99 :: nat]"
    using upt_Suc_append[of 0 99] by simp
  ultimately show ?thesis by simp
qed

text \<open>
  C9: the code departs from the claim. The progress \<open>print\<close> of every hundredth record
  stands inside the \<open>try\<close> of the loop, after \<open>inserted\<close> or \<open>skipped\<close> has been
  incremented for the \<open>INSERT\<close>. When that \<open>print\<close> raises, the handler adds one to
  \<open>skipped\<close> for a record that is counted already. A historical batch of 100 records
  with a broken standard output ends with \<open>inserted + updated + skipped = 101\<close>.
\<close>

theorem progress_print_counts_twice:
  "length (replicate 100 anonymous_meeting) = 100
   \<and> inserted (snd (store_batch broken_stdout_env (replicate 100 anonymous_meeting) True empty_db))
     + updated (snd (store_batch broken_stdout_env (replicate 100 anonymous_meeting) True empty_db))
     + skipped (snd (store_batch broken_stdout_env (replicate 100 anonymous_meeting) True empty_db))
     = 101"
  using store_loop_counted_historical[of broken_stdout_env 0 "replicate 100 anonymous_meeting"
      "(sql_delete_all empty_db, \<lparr>inserted = 0, updated = 0, skipped = 0\<rparr>)"]
  by (simp add: store_batch_def counted_def filter_counted_twice_100)

subsection \<open>Attendee counts\<close>

lemma count_attendee_total:
  "n_accepted (count_attendee c a) + n_declined (count_attendee c a)
     + n_tentative (count_attendee c a) + n_needs_action (count_attendee c a)
   = n_accepted c + n_declined c + n_tentative c + n_needs_action c
     + (if recognised (response_status a) then 1 else 0)"
  by (simp add: count_attendee_def recognised_def)

lemma foldl_count_total:
  "n_accepted (foldl count_attendee c as) + n_declined (foldl count_attendee c as)
     + n_tentative (foldl count_attendee c as) + n_needs_action (foldl count_attendee c as)
   = n_accepted c + n_declined c + n_tentative c + n_needs_action c
     + length (filter (\<lambda>a. recognised (response_status a)) as)"
proof (induction as arbitrary: c)
  case Nil
  show ?case by simp
next
  case (Cons a as)
  show ?case
    unfolding foldl_Cons Cons.IH count_attendee_total by simp
qed

lemma count_attendee_needs_action:
  "n_needs_action (count_attendee c a)
   = n_needs_action c + (if counts_as_needs_action a then 1 else 0)"
  by (auto simp: count_attendee_def counts_as_needs_action_def response_status_def
      split: option.splits)

lemma foldl_count_needs_action:
  "n_needs_action (foldl count_attendee c as)
   = n_needs_action c + length (filter counts_as_needs_action as)"
proof (induction as arbitrary: c)
  case Nil
  show ?case by simp
next
  case (Cons a as)
  show ?case
    unfolding foldl_Cons Cons.IH count_attendee_needs_action by simp
qed

lemma length_filter_split:
  "length (filter P xs) + length (filter (\<lambda>x. \<not> P x) xs) = length xs"
  by (induction xs) auto

lemma normalize_event_counts:
  assumes "normalize_event p ev = Some m"
  shows "attendees_count m = length (ev_attendees ev)"
    and "attendees_accepted m = n_accepted (count_attendees (ev_attendees ev))"
    and "attendees_declined m = n_declined (count_attendees (ev_attendees ev))"
    and "attendees_tentative m = n_tentative (count_attendees (ev_attendees ev))"
    and "attendees_needs_action m = n_needs_action (count_attendees (ev_attendees ev))"
  using assms
  by (auto simp: normalize_event_def Let_def split: if_splits sum.splits prod.splits)


subsection \<open>The float computation of the minutes\<close>

lemma round_half_even_error: "\<bar>of_int (round_half_even x) - x\<bar> \<le> 1 / 2"
proof -
  have "of_int \<lfloor>x\<rfloor> \<le> x" "x < of_int \<lfloor>x\<rfloor> + 1" by linarith+
  then show ?thesis
    by (auto simp: round_half_even_def Let_def abs_le_iff)
qed

lemma round_half_even_of_int: "round_half_even (of_int n) = n"
  by (simp add: round_half_even_def)

lemma binary64_round_minus: "binary64_round (- x) = - binary64_round x"
  by (simp add: binary64_round_def binary64_drop_def)

lemma binary64_round_error:
  assumes pos: "0 < x" and normal: "2 ^ 52 \<le> x * 2 ^ 1074"
  shows "\<bar>binary64_round x - x\<bar> \<le> x / 2 ^ 53"
proof -
  define c :: rat where "c = 2 ^ 1074"
  have c: "0 < c" by (simp add: c_def)
  define s where "s = x * c"
  define y where "y = \<lfloor>s\<rfloor>"
  define k where "k = binary64_drop x"
  have "(of_int (2 ^ 52) :: rat) \<le> s" using normal by (simp add: s_def c_def)
  then have y52: "2 ^ 52 \<le> y" unfolding y_def by (subst le_floor_iff) 
  then have ypos: "0 < y" by (smt (verit) zero_less_power)
  have b53: "53 \<le> bitlen y" using y52 by (simp add: bitlen_ge_iff_power)
  have k: "k = nat (bitlen y - 53)"
    using pos by (simp add: k_def binary64_drop_def y_def s_def c_def)
  have "nat (bitlen y - 1) = k + 52" using b53 k by simp
  with bitlen_bounds[OF ypos] have "2 ^ (k + 52) \<le> y" by simp
  then have "(of_int (2 ^ (k + 52)) :: rat) \<le> of_int y" by (simp only: of_int_le_iff)
  also have "\<dots> \<le> s" unfolding y_def by simp
  finally have slow: "2 ^ k * 2 ^ 52 \<le> s" by (simp add: power_add)
  define z where "z = s / 2 ^ k"
  define r where "r = round_half_even z"
  have br: "binary64_round x = of_int r * 2 ^ k / c"
    using pos by (simp add: binary64_round_def r_def z_def s_def c_def k_def)
  have xz: "x = z * 2 ^ k / c" using c by (simp add: z_def s_def)
  have "binary64_round x - x = (of_int r - z) * (2 ^ k / c)"
    unfolding br by (subst xz) (simp add: algebra_simps diff_divide_distrib)
  then have "\<bar>binary64_round x - x\<bar> = \<bar>of_int r - z\<bar> * (2 ^ k / c)"
    using c by (simp add: abs_mult)
  also have "\<dots> \<le> 1 / 2 * (2 ^ k / c)"
    using round_half_even_error[of z] c unfolding r_def
    by (intro mult_right_mono) auto
  also have "\<dots> = 2 ^ k * 2 ^ 52 / c / 2 ^ 53" by simp
  also have "\<dots> \<le> s / c / 2 ^ 53"
    using slow c by (intro divide_right_mono) auto
  also have "s / c = x" using c by (simp add: s_def)
  finally show ?thesis .
qed


lemma binary64_round_of_int:
  assumes "\<bar>n\<bar> < 2 ^ 53"
  shows "binary64_round (of_int n) = of_int n"
proof -
  have pos: "binary64_round (of_int m) = of_int m" if m: "0 < m" "m < 2 ^ 53" for m :: int
  proof -
    define k where "k = binary64_drop (of_int m)"
    have fl: "\<lfloor>\<bar>of_int m :: rat\<bar> * 2 ^ 1074\<rfloor> = m * 2 ^ 1074"
    proof -
      have "\<bar>of_int m :: rat\<bar> * 2 ^ 1074 = of_int (m * 2 ^ 1074)" using m by simp
      then show ?thesis by (simp only: floor_of_int)
    qed
    have "bitlen m \<le> 53" using m by (simp add: bitlen_le_iff_power)
    moreover have "k = nat (bitlen m + 1074 - 53)"
      unfolding k_def binary64_drop_def fl bitlen_pow2[OF m(1)] by simp
    ultimately have k: "k \<le> 1074" by simp
    then obtain j where j: "1074 = k + j" using le_Suc_ex by blast
    have "\<bar>of_int m :: rat\<bar> * 2 ^ 1074 / 2 ^ k = of_int (m * 2 ^ j)"
      using m by (simp add: j power_add)
    then have "round_half_even (\<bar>of_int m :: rat\<bar> * 2 ^ 1074 / 2 ^ k) = m * 2 ^ j"
      by (simp only: round_half_even_of_int)
    then have "binary64_round (of_int m) = of_int (m * 2 ^ j) * 2 ^ k / 2 ^ 1074"
      using m by (simp add: binary64_round_def k_def)
    also have "\<dots> = of_int m" by (simp add: j power_add)
    finally show ?thesis .
  qed
  consider "n = 0" | "0 < n" | "n < 0" by linarith
  then show ?thesis
  proof cases
    case 1
    then show ?thesis by (simp add: binary64_round_def)
  next
    case 2
    with assms pos[of n] show ?thesis by simp
  next
    case 3
    with assms pos[of "- n"] binary64_round_minus[of "of_int n"] show ?thesis by simp
  qed
qed

lemma py_int_minus: "py_int (- x) = - py_int x"
  by (auto simp: py_int_def ceiling_def)

lemma minutes_between_minus: "minutes_between (- td) = - minutes_between td"
  by (simp add: minutes_between_def float_div_def total_seconds_def binary64_round_minus
      py_int_minus)

lemma truncated_minutes_minus: "truncated_minutes (- td) = - truncated_minutes td"
  by (simp add: truncated_minutes_def sgn_if)


lemma normal_range: "(1 / 2 ^ 30 :: rat) \<le> x \<Longrightarrow> 2 ^ 52 \<le> x * 2 ^ 1074"
proof -
  assume x: "(1 / 2 ^ 30 :: rat) \<le> x"
  have "(2 :: rat) ^ 52 \<le> 2 ^ 1044" by (rule power_increasing) simp_all
  also have "\<dots> = 1 / 2 ^ 30 * 2 ^ 1074"
  proof -
    have "(2 :: rat) ^ 1074 = 2 ^ 30 * 2 ^ 1044" unfolding power_add[symmetric] by simp
    then show ?thesis by simp
  qed
  also have "\<dots> \<le> x * 2 ^ 1074" using x by (intro mult_right_mono) simp_all
  finally show ?thesis .
qed

lemma minutes_between_nonneg:
  assumes td: "0 \<le> td" "td \<le> 2 ^ 51"
  shows "minutes_between td = td div 60000000"
proof -
  define q where "q = td div 60000000"
  define r where "r = td mod 60000000"
  have td_eq: "td = 60000000 * q + r" by (simp add: q_def r_def)
  have r: "0 \<le> r" "r < 60000000" by (simp_all add: r_def)
  have q: "0 \<le> q" using td by (simp add: q_def pos_imp_zdiv_nonneg_iff)
  show ?thesis
  proof (cases "r = 0")
    case True
    have "60 * q \<le> td" using td_eq True q by simp
    then have "\<bar>60 * q\<bar> < 2 ^ 53" using td q by simp
    have "(of_int td :: rat) / 1000000 = of_int (60 * q)" using td_eq True by simp
    then have "total_seconds td = of_int (60 * q)"
      unfolding total_seconds_def using binary64_round_of_int[OF \<open>\<bar>60 * q\<bar> < 2 ^ 53\<close>] by simp
    then have "float_div (total_seconds td) 60 = binary64_round (of_int q)"
      by (simp add: float_div_def)
    also have "\<dots> = of_int q"
      using \<open>\<bar>60 * q\<bar> < 2 ^ 53\<close> q by (intro binary64_round_of_int) simp
    finally show ?thesis using q by (simp add: minutes_between_def py_int_def q_def)
  next
    case False
    with r have r1: "1 \<le> r" by simp
    define x1 :: rat where "x1 = of_int td / 1000000"
    define s1 where "s1 = binary64_round x1"
    define x2 where "x2 = s1 / 60"
    define m where "m = binary64_round x2"
    define e :: rat where "e = 1 / 2 ^ 53"
    have td1: "1 \<le> td" using td_eq r1 q by simp
    have tdr: "(1 :: rat) \<le> of_int td" "(of_int td :: rat) \<le> 2251799813685248"
    proof -
      from td1 have "(of_int 1 :: rat) \<le> of_int td" by (simp only: of_int_le_iff)
      then show "(1 :: rat) \<le> of_int td" by simp
      from td(2) have "(of_int td :: rat) \<le> of_int (2 ^ 51)" by (simp only: of_int_le_iff)
      then show "(of_int td :: rat) \<le> 2251799813685248" by simp
    qed
    have x1pos: "0 < x1" "1 / 1000000 \<le> x1" using tdr by (simp_all add: x1_def)
    have "(1 / 2 ^ 30 :: rat) \<le> x1" using x1pos by simp
    from binary64_round_error[OF x1pos(1) normal_range[OF this]]
    have "\<bar>s1 - x1\<bar> \<le> x1 * e" by (simp add: s1_def e_def)
    then have s1: "x1 * (1 - e) \<le> s1" "s1 \<le> x1 * (1 + e)"
      by (simp_all add: abs_le_iff algebra_simps)
    have "x1 * (1 / 2) \<le> x1 * (1 - e)" using x1pos by (intro mult_left_mono) (simp_all add: e_def)
    with s1(1) x1pos(2) have s1low: "1 / 2000000 \<le> s1" by linarith
    then have x2pos: "0 < x2" "1 / 120000000 \<le> x2" by (simp_all add: x2_def)
    have "(1 / 2 ^ 30 :: rat) \<le> x2" using x2pos by simp
    from binary64_round_error[OF x2pos(1) normal_range[OF this]]
    have "\<bar>m - x2\<bar> \<le> x2 * e" by (simp add: m_def e_def)
    then have m: "x2 * (1 - e) \<le> m" "m \<le> x2 * (1 + e)"
      by (simp_all add: abs_le_iff algebra_simps)
    define v :: rat where "v = of_int td / 60000000"
    have vx: "x1 / 60 = v" by (simp add: v_def x1_def)
    have "x2 * (1 + e) \<le> x1 * (1 + e) / 60 * (1 + e)"
      unfolding x2_def using s1(2) by (intro mult_right_mono divide_right_mono) (simp_all add: e_def)
    with m(2) have up: "m \<le> v * ((1 + e) * (1 + e))" unfolding vx[symmetric] by simp
    have "x1 * (1 - e) / 60 * (1 - e) \<le> x2 * (1 - e)"
      unfolding x2_def using s1(1) by (intro mult_right_mono divide_right_mono) (simp_all add: e_def)
    with m(1) have low: "v * ((1 - e) * (1 - e)) \<le> m" unfolding vx[symmetric] by simp
    have veq: "v = of_int q + of_int r / 60000000" by (simp add: v_def td_eq)
    have rr: "(1 :: rat) \<le> of_int r" "(of_int r :: rat) \<le> 59999999"
    proof -
      from r1 have "(of_int 1 :: rat) \<le> of_int r" by (simp only: of_int_le_iff)
      then show "(1 :: rat) \<le> of_int r" by simp
      from r(2) have "r \<le> 59999999" by simp
      then have "(of_int r :: rat) \<le> of_int 59999999" by (simp only: of_int_le_iff)
      then show "(of_int r :: rat) \<le> 59999999" by simp
    qed
    have vb: "0 \<le> v" "v \<le> 2251799813685248 / 60000000" using tdr by (simp_all add: v_def)
    have "v * ((1 + e) * (1 + e)) < of_int q + 1"
      using vb rr unfolding veq e_def by (simp add: field_simps)
    with up have mup: "m < of_int q + 1" by simp
    have "of_int q \<le> v * ((1 - e) * (1 - e))"
      using vb rr unfolding veq e_def by (simp add: field_simps)
    with low have mlow: "of_int q \<le> m" by simp
    from mlow mup have "\<lfloor>m\<rfloor> = q" by (subst floor_unique) simp_all
    moreover have "0 \<le> m" using mlow q by (simp add: order_trans[of 0 "of_int q"])
    ultimately show ?thesis
      by (simp add: minutes_between_def py_int_def float_div_def total_seconds_def
          m_def x2_def s1_def x1_def q_def)
  qed
qed

text \<open>
  Within \<open>2^51\<close> microseconds (a little over 71 years) in either direction, the two float
  operations and the truncation give the exact quotient truncated toward zero.
\<close>

lemma minutes_between_truncated:
  assumes "\<bar>td\<bar> \<le> 2 ^ 51"
  shows "minutes_between td = truncated_minutes td"
proof (cases "0 \<le> td")
  case True
  with assms have "minutes_between td = td div 60000000"
    by (intro minutes_between_nonneg) simp_all
  with True show ?thesis by (simp add: truncated_minutes_def sgn_if)
next
  case False
  with assms have "minutes_between (- td) = (- td) div 60000000"
    by (intro minutes_between_nonneg) simp_all
  moreover have "truncated_minutes (- td) = (- td) div 60000000"
    using False by (simp add: truncated_minutes_def sgn_if)
  ultimately have "minutes_between (- td) = truncated_minutes (- td)" by simp
  then show ?thesis
    by (simp only: minutes_between_minus truncated_minutes_minus neg_equal_iff_equal)
qed

lemma round_half_even_nearest:
  assumes "of_int n - 1 / 2 < x" "x < of_int n + 1 / 2"
  shows "round_half_even x = n"
proof -
  have fl: "\<lfloor>x\<rfloor> = n \<or> \<lfloor>x\<rfloor> = n - 1" using assms by linarith
  have b: "of_int \<lfloor>x\<rfloor> \<le> x" "x < of_int \<lfloor>x\<rfloor> + 1" by linarith+
  from fl show ?thesis
  proof
    assume f: "\<lfloor>x\<rfloor> = n"
    with assms b have "x - of_int \<lfloor>x\<rfloor> < 1 / 2" by simp
    with f show ?thesis by (simp add: round_half_even_def Let_def)
  next
    assume f: "\<lfloor>x\<rfloor> = n - 1"
    with assms b have "1 / 2 < x - of_int \<lfloor>x\<rfloor>" by simp
    with f show ?thesis by (simp add: round_half_even_def Let_def)
  qed
qed

lemma binary64_round_scaled:
  assumes pos: "0 < x" and lo: "2 ^ 52 \<le> x * 2 ^ j" and hi: "x * 2 ^ j < 2 ^ 53"
    and j: "j \<le> 1074"
  shows "binary64_round x = of_int (round_half_even (x * 2 ^ j)) / 2 ^ j"
proof -
  obtain k where k: "1074 = j + k" using j le_Suc_ex by blast
  define y where "y = \<lfloor>x * 2 ^ j * 2 ^ k\<rfloor>"
  have xs: "\<bar>x\<bar> * 2 ^ 1074 = x * 2 ^ j * 2 ^ k" using pos by (simp add: k power_add)
  have "(of_int (2 ^ (52 + k)) :: rat) \<le> x * 2 ^ j * 2 ^ k"
    using lo by (simp add: power_add mult_right_mono)
  then have ylo: "2 ^ (52 + k) \<le> y" unfolding y_def by (subst le_floor_iff)
  have "x * 2 ^ j * 2 ^ k < of_int (2 ^ (53 + k))"
    using hi by (simp add: power_add mult_strict_right_mono)
  then have yhi: "y < 2 ^ (53 + k)" unfolding y_def by (subst floor_less_iff)
  have "bitlen y = 53 + int k"
  proof (rule antisym)
    show "bitlen y \<le> 53 + int k"
      using yhi by (simp add: bitlen_le_iff_power nat_add_distrib)
    show "53 + int k \<le> bitlen y"
      using ylo by (simp add: bitlen_ge_iff_power nat_add_distrib)
  qed
  then have drop: "binary64_drop x = k"
    unfolding binary64_drop_def xs y_def[symmetric] by simp
  have "binary64_round x = of_int (round_half_even (x * 2 ^ j * 2 ^ k / 2 ^ k)) * 2 ^ k / (2 ^ j * 2 ^ k)"
    unfolding binary64_round_def drop xs using pos by (simp add: k power_add)
  then show ?thesis by simp
qed

text \<open>
  Beyond that range the float result can leave the exact truncation: one microsecond short
  of 300000000 minutes (about 570 years), \<open>total_seconds\<close> rounds up to the full second,
  and the result is 300000000 where the exact quotient truncates to 299999999.
\<close>

lemma minutes_between_beyond_bound:
  "minutes_between 17999999999999999 = 300000000
   \<and> truncated_minutes 17999999999999999 = 299999999"
proof -
  have r: "round_half_even (17999999999999999 / 1000000 * 2 ^ 18) = 4718592000000000"
    by (rule round_half_even_nearest) simp_all
  have "total_seconds 17999999999999999 = of_int 4718592000000000 / 2 ^ 18"
    unfolding total_seconds_def r[symmetric]
    by (simp only: of_int_numeral) (rule binary64_round_scaled; simp)
  then have s: "total_seconds 17999999999999999 = 18000000000" by simp
  have "float_div (total_seconds 17999999999999999) 60 = binary64_round (of_int 300000000)"
    by (simp add: float_div_def s)
  also have "\<dots> = of_int 300000000" by (rule binary64_round_of_int) simp
  finally have "minutes_between 17999999999999999 = 300000000"
    by (simp add: minutes_between_def py_int_def)
  then show ?thesis by (simp add: truncated_minutes_def)
qed

lemma rounded_minutes_sample: "rounded_minutes 59000000 = 1"
proof -
  have "\<lfloor>59 / 60 :: rat\<rfloor> = 0" by (rule floor_unique) simp_all
  then show ?thesis by (simp add: rounded_minutes_def round_half_even_def)
qed

lemma minutes_between_samples:
  "minutes_between 1800000000 = 30" "minutes_between 59000000 = 0" "minutes_between 0 = 0"
  by (simp_all add: minutes_between_truncated truncated_minutes_def)

subsection \<open>Evaluating \<open>fetch_calendar_data\<close> on the samples\<close>

lemma sample_parse:
  "sample_fromisoformat (replace_Z ''2024-01-01T09:00:00Z'')
     = Some \<lparr>tz_aware = True, micros = 1704099600000000\<rparr>"
  "sample_fromisoformat (replace_Z ''2024-01-01T09:00:59Z'')
     = Some \<lparr>tz_aware = True, micros = 1704099659000000\<rparr>"
  "sample_fromisoformat (replace_Z ''2024-01-01T09:30:00Z'')
     = Some \<lparr>tz_aware = True, micros = 1704101400000000\<rparr>"
  by (simp_all add: sample_fromisoformat_def replace_Z_def)

lemmas normalize_simps =
  normalize_event_def sample_event_def sample_meeting_def time_of_info_def truthy_def
  string_of_def calculate_duration_def dt_sub_def count_attendees_def count_attendee_def
  response_status_def Let_def sample_parse minutes_between_samples

lemma normalize_sample: "normalize_event sample_fromisoformat sample_event = Some sample_meeting"
  by (simp add: normalize_simps)

lemma normalize_unrecognised:
  "normalize_event sample_fromisoformat unrecognised_event = Some unrecognised_meeting"
  by (simp add: normalize_simps unrecognised_event_def unrecognised_meeting_def)

lemma normalize_short:
  "normalize_event sample_fromisoformat short_event = Some short_meeting"
  by (simp add: normalize_simps short_event_def short_meeting_def)

lemma normalize_instant:
  "normalize_event sample_fromisoformat instant_event = Some instant_meeting"
  by (simp add: normalize_simps instant_event_def instant_meeting_def)

lemma fetch_calendar_data_single:
  "fetch_calendar_data p [ev] = (case normalize_event p ev of None \<Rightarrow> [] | Some m \<Rightarrow> [m])"
  by (simp add: fetch_calendar_data_def split: option.splits)


subsection \<open>Attendee response counting\<close>

text \<open>
  C7, as stated, fails. The sample event with the statuses \<open>accepted\<close>, \<open>delegated\<close> and
  a missing status is normalised to a record with \<open>attendees_count = 3\<close> whose four
  counters sum to 2: the attendee with the unrecognised status \<open>delegated\<close> is counted
  nowhere (not as \<open>needsAction\<close>, which is 1 for the attendee without a status).
\<close>

theorem attendee_counts_counterexample:
  "fetch_calendar_data sample_fromisoformat [unrecognised_event] = [unrecognised_meeting]
   \<and> attendees_count unrecognised_meeting = 3
   \<and> status_total unrecognised_meeting = 2
   \<and> attendees_needs_action unrecognised_meeting = 1"
  by (simp add: fetch_calendar_data_single normalize_unrecognised)
     (simp add: unrecognised_meeting_def sample_meeting_def status_total_def)

text \<open>
  C7, amended. For every event that \<open>fetch_calendar_data\<close> normalises, the counters come
  from a four-way chain without a default branch: an attendee without \<open>responseStatus\<close>
  is counted as \<open>needsAction\<close>, an attendee whose \<open>responseStatus\<close> is none of the four
  values is counted in no counter. So the four counters and the number of attendees with
  an unrecognised status add up to \<open>attendees_count\<close>, and \<open>attendees_needs_action\<close> is the
  number of attendees whose status is missing or \<open>needsAction\<close>.
\<close>

theorem attendee_counts:
  assumes "normalize_event fromisoformat ev = Some m"
  shows "status_total m + length (filter unrecognised (ev_attendees ev)) = attendees_count m
         \<and> attendees_needs_action m = length (filter counts_as_needs_action (ev_attendees ev))"
proof -
  have "status_total m = length (filter (\<lambda>a. recognised (response_status a)) (ev_attendees ev))"
    unfolding status_total_def normalize_event_counts[OF assms] count_attendees_def
      foldl_count_total by simp
  moreover have "attendees_needs_action m = length (filter counts_as_needs_action (ev_attendees ev))"
    unfolding normalize_event_counts[OF assms] count_attendees_def foldl_count_needs_action
    by simp
  moreover have "attendees_count m = length (ev_attendees ev)"
    by (rule normalize_event_counts[OF assms])
  ultimately show ?thesis
    using length_filter_split[of "\<lambda>a. recognised (response_status a)" "ev_attendees ev"]
    unfolding unrecognised_def by simp
qed

theorem attendee_counts_witness:
  "normalize_event sample_fromisoformat unrecognised_event = Some unrecognised_meeting
   \<and> status_total unrecognised_meeting
       + length (filter unrecognised (ev_attendees unrecognised_event))
     = attendees_count unrecognised_meeting
   \<and> attendees_needs_action unrecognised_meeting
     = length (filter counts_as_needs_action (ev_attendees unrecognised_event))"
  using attendee_counts[OF normalize_unrecognised] normalize_unrecognised by blast

subsection \<open>Duration derivation\<close>

lemma normalize_event_duration:
  assumes "normalize_event fromisoformat ev = Some m"
  shows "duration_minutes m = minutes_between (micros (end_time m) - micros (start_time m))"
  using assms
  by (auto simp: normalize_event_def calculate_duration_def dt_sub_def Let_def
      split: if_splits sum.splits prod.splits option.splits)

text \<open>
  C5, as stated, fails: the claim equates \<open>round\<close> and truncation. For the sample event
  of 59 seconds \<open>fetch_calendar_data\<close> stores \<open>duration_minutes = 0\<close>, while the elapsed
  minutes round to 1.
\<close>

theorem duration_round_counterexample:
  "fetch_calendar_data sample_fromisoformat [short_event] = [short_meeting]
   \<and> duration_minutes short_meeting = 0
   \<and> rounded_minutes (micros (end_time short_meeting) - micros (start_time short_meeting)) = 1"
  by (simp add: fetch_calendar_data_single normalize_short)
     (simp add: short_meeting_def sample_meeting_def rounded_minutes_sample)

text \<open>
  C5, amended. For every event that \<open>fetch_calendar_data\<close> normalises,
  \<open>duration_minutes\<close> is computed from the parsed \<open>start_time\<close> and \<open>end_time\<close> of the same
  record (nothing else of the event enters), as \<open>int(total_seconds / 60)\<close> in float
  arithmetic; whenever the two times are at most \<open>2^51\<close> microseconds apart, that is the
  elapsed time in minutes truncated toward zero.
\<close>

theorem duration_derivation:
  assumes "normalize_event fromisoformat ev = Some m"
  shows "duration_minutes m = minutes_between (micros (end_time m) - micros (start_time m))
         \<and> (\<bar>micros (end_time m) - micros (start_time m)\<bar> \<le> 2 ^ 51
              \<longrightarrow> duration_minutes m
                   = truncated_minutes (micros (end_time m) - micros (start_time m)))"
  using normalize_event_duration[OF assms] minutes_between_truncated by simp

theorem duration_derivation_witness:
  "normalize_event sample_fromisoformat sample_event = Some sample_meeting
   \<and> \<bar>micros (end_time sample_meeting) - micros (start_time sample_meeting)\<bar> \<le> 2 ^ 51
   \<and> duration_minutes sample_meeting
       = truncated_minutes (micros (end_time sample_meeting) - micros (start_time sample_meeting))
   \<and> duration_minutes sample_meeting = 30"
proof -
  have b: "\<bar>micros (end_time sample_meeting) - micros (start_time sample_meeting)\<bar> \<le> 2 ^ 51"
    by (simp add: sample_meeting_def)
  from duration_derivation[OF normalize_sample] b
  have "duration_minutes sample_meeting
       = truncated_minutes (micros (end_time sample_meeting) - micros (start_time sample_meeting))"
    by blast
  with b normalize_sample show ?thesis by (simp add: sample_meeting_def)
qed

subsection \<open>Exit status of \<open>main\<close>\<close>

lemma load_fetcher: "load_global ''DynamicCalendarFetcher'' = Inl (Exc NameError)"
  by (simp add: load_global_def module_globals_def)

text \<open>
  C8: the code departs from the claim. \<open>main\<close> builds \<open>DynamicCalendarFetcher()\<close> first in
  its \<open>try\<close> block; no such name is bound in the module, so the \<open>NameError\<close> reaches the
  handler, which exits with status 1. The exit status is therefore 1 for every environment,
  every argument namespace and whatever the methods of a fetcher would have returned: no
  invocation ends with status 0.
\<close>

theorem main_exit_status: "main getenv methods a = 1"
  by (simp add: main_def main_try_def load_fetcher)

text \<open>At the concrete input: all variables set, \<open>--daily\<close>, a fetch that would succeed.\<close>

lemma main_daily_sample:
  "missing_vars sample_getenv = []
   \<and> main sample_getenv (\<lambda>c. Inr True)
        \<lparr>years = None, days = None, daily = True, start_date = None, end_date = None\<rparr> = 1"
  by (simp add: missing_vars_def required_env_vars_def sample_getenv_def truthy_def
      main_def main_try_def load_fetcher)


subsection \<open>The batch loop of \<open>fetch_historical_data\<close>\<close>

text \<open>
  Induction over a run of the loop that ends: a property that holds at the start and is
  kept by every execution of the body holds at the end, where the loop test is false.
\<close>

lemma historical_loop_induct:
  fixes I :: "'m loop_state \<Rightarrow> bool"
  assumes run: "historical_loop fetch E st = Some st'"
    and init: "I st"
    and step: "\<And>s. I s \<Longrightarrow> current_start s < E \<Longrightarrow> I (historical_step fetch E s)"
  shows "I st' \<and> \<not> current_start st' < E"
proof -
  define P where "P = (\<lambda>(f :: nat \<Rightarrow> int \<Rightarrow> int \<Rightarrow> exn + 'm list) (e :: int) (s :: 'm loop_state) (s' :: 'm loop_state).
     f = fetch \<longrightarrow> e = E \<longrightarrow> I s \<longrightarrow> I s' \<and> \<not> current_start s' < E)"
  have "P fetch E st st'"
  proof (rule historical_loop.raw_induct[where P = P, OF _ run])
    fix loop :: "(nat \<Rightarrow> int \<Rightarrow> int \<Rightarrow> exn + 'm list) \<Rightarrow> int \<Rightarrow> 'm loop_state \<Rightarrow> 'm loop_state option"
    fix f e s s'
    assume IH: "\<And>f e s s'. loop f e s = Some s' \<Longrightarrow> P f e s s'"
      and body: "(if current_start s < e then loop f e (historical_step f e s) else Some s) = Some s'"
    show "P f e s s'"
      unfolding P_def
    proof (intro impI)
      assume fe: "f = fetch" "e = E" and Is: "I s"
      show "I s' \<and> \<not> current_start s' < E"
      proof (cases "current_start s < E")
        case True
        with body fe have "loop fetch E (historical_step fetch E s) = Some s'" by simp
        from IH[OF this] have "P fetch E (historical_step fetch E s) s'" .
        moreover have "I (historical_step fetch E s)" using step[OF Is True] .
        ultimately show ?thesis unfolding P_def by simp
      next
        case False
        with body fe have "s' = s" by simp
        with Is False show ?thesis by simp
      qed
    qed
  qed
  with init show ?thesis unfolding P_def by simp
qed

lemma historical_step_raised:
  fixes st :: "'m loop_state"
  assumes "fetch (current_batch st + 1) (current_start st)
             (min (current_start st + timedelta_days 31) E) = Inl e"
  shows "historical_step fetch E st =
           st\<lparr>current_batch := current_batch st + 1,
              fetch_log := fetch_log st @
                [((current_start st, min (current_start st + timedelta_days 31) E), False)]\<rparr>"
  using assms by (simp add: historical_step_def Let_def)

lemma historical_step_returned:
  fixes st :: "'m loop_state"
  assumes "fetch (current_batch st + 1) (current_start st)
             (min (current_start st + timedelta_days 31) E) = Inr ms"
  shows "historical_step fetch E st =
           \<lparr>current_start = min (current_start st + timedelta_days 31) E,
            current_batch = current_batch st + 1,
            all_meetings = (if ms \<noteq> [] then all_meetings st @ ms else all_meetings st),
            fetch_log = fetch_log st @
                [((current_start st, min (current_start st + timedelta_days 31) E), True)]\<rparr>"
  using assms by (simp add: historical_step_def Let_def)

lemma historical_loop_diverges:
  fixes st :: "'m loop_state"
  assumes raises: "\<And>n b. isl (fetch n (current_start st) b)" and less: "current_start st < E"
  shows "historical_loop fetch E st = None"
proof (rule ccontr)
  assume "historical_loop fetch E st \<noteq> None"
  then obtain st' where run: "historical_loop fetch E st = Some st'" by auto
  have "current_start st' = current_start st \<and> \<not> current_start st' < E"
  proof (rule historical_loop_induct[OF run, where I = "\<lambda>s::'m loop_state. current_start s = current_start st"])
    show "current_start st = current_start st" by simp
  next
    fix s :: "'m loop_state" assume s: "current_start s = current_start st" "current_start s < E"
    obtain e where "fetch (current_batch s + 1) (current_start s)
             (min (current_start s + timedelta_days 31) E) = Inl e"
      using raises[of "current_batch s + 1" "min (current_start s + timedelta_days 31) E"] s(1)
      by (auto simp: isl_def)
    from historical_step_raised[where fetch = fetch and st = s and E = E, OF this] s(1)
    show "current_start (historical_step fetch E s) = current_start st" by simp
  qed
  with less show False by simp
qed

lemma historical_loop_terminates:
  fixes st :: "'m loop_state"
  assumes "\<And>n a b. \<not> isl (fetch n a b)"
  shows "\<exists>st'. historical_loop fetch E st = Some st'"
proof (induction "nat (E - current_start st)" arbitrary: st rule: less_induct)
  case less
  show ?case
  proof (cases "current_start st < E")
    case False
    then show ?thesis by (subst historical_loop.simps) simp
  next
    case True
    obtain ms where f: "fetch (current_batch st + 1) (current_start st)
        (min (current_start st + timedelta_days 31) E) = Inr ms"
      using assms[of "current_batch st + 1" "current_start st" "min (current_start st + timedelta_days 31) E"]
      by (cases "fetch (current_batch st + 1) (current_start st)
        (min (current_start st + timedelta_days 31) E)") auto
    have cs: "current_start (historical_step fetch E st) = min (current_start st + timedelta_days 31) E"
      unfolding historical_step_returned[where fetch = fetch and st = st and E = E, OF f] by simp
    have "nat (E - current_start (historical_step fetch E st)) < nat (E - current_start st)"
      using True unfolding cs by (auto simp: timedelta_days_def min_def)
    from less[OF this] obtain st' where
      "historical_loop fetch E (historical_step fetch E st) = Some st'" by blast
    with True show ?thesis by (subst historical_loop.simps) simp
  qed
qed




















subsection \<open>A window whose fetch raises\<close>

text \<open>
  C3: the code departs from the claim. The handler's \<open>continue\<close> skips
  \<open>current_start = current_end\<close>, so the window of a failed call is requested again, not
  skipped. With a calendar that raises on every call for the first of two windows the
  loop never ends and the second window is never requested; with one that raises on the
  first call only, the log shows the first window requested twice.
\<close>

theorem failed_window_is_retried:
  "historical_loop stuck_fetch (timedelta_days 40) (initial_state 0) = None
   \<and> map_option windows_tried
        (historical_loop flaky_fetch (timedelta_days 40) (initial_state 0))
     = Some [(0, 2678400000000), (0, 2678400000000), (2678400000000, 3456000000000)]"
proof
  show "historical_loop stuck_fetch (timedelta_days 40) (initial_state 0) = None"
    by (rule historical_loop_diverges)
       (simp_all add: stuck_fetch_def initial_state_def timedelta_days_def)
  show "map_option windows_tried
        (historical_loop flaky_fetch (timedelta_days 40) (initial_state 0))
     = Some [(0, 2678400000000), (0, 2678400000000), (2678400000000, 3456000000000)]"
    by (simp add: historical_loop.simps historical_step_def initial_state_def flaky_fetch_def
        timedelta_days_def Let_def windows_tried_def)
qed

subsection \<open>A historical fetch that retrieves nothing\<close>

lemma all_meetings_empty:
  fixes st :: "'m loop_state"
  assumes run: "historical_loop fetch E (initial_state S) = Some st"
    and none: "\<And>n a b ms. fetch n a b = Inr ms \<Longrightarrow> ms = []"
  shows "all_meetings st = []"
proof -
  have "all_meetings st = [] \<and> \<not> current_start st < E"
  proof (rule historical_loop_induct[OF run])
    show "all_meetings (initial_state S :: 'm loop_state) = []" by (simp add: initial_state_def)
  next
    fix s :: "'m loop_state"
    assume s: "all_meetings s = []"
    show "all_meetings (historical_step fetch E s) = []"
    proof (cases "fetch (current_batch s + 1) (current_start s)
        (min (current_start s + timedelta_days 31) E)")
      case (Inl e)
      from historical_step_raised[where fetch = fetch and st = s and E = E, OF this] s
      show ?thesis by simp
    next
      case (Inr ms)
      from historical_step_returned[where fetch = fetch and st = s and E = E, OF this] s none[OF Inr]
      show ?thesis by simp
    qed
  qed
  then show ?thesis by simp
qed


text \<open>
  C10. If no call of a historical run returns a record, then \<open>fetch_historical_data\<close>,
  whenever it returns, returns \<open>False\<close> and leaves the table as it was: the branch that
  calls \<open>store_meetings_data\<close> (and with it the \<open>DELETE\<close>) is not taken, whatever the
  environment of the store. When moreover no call raises, it does return.
\<close>

theorem empty_historical_fetch:
  assumes none: "\<forall>n a b ms. fetch n a b = Inr ms \<longrightarrow> ms = []"
  shows "(\<forall>r. fetch_historical_data authenticated now fetch env years_back d = Some r
              \<longrightarrow> r = (False, d))
         \<and> ((\<forall>n a b. \<not> isl (fetch n a b))
              \<longrightarrow> fetch_historical_data authenticated now fetch env years_back d = Some (False, d))"
proof -
  have a: "r = (False, d)"
    if "fetch_historical_data authenticated now fetch env years_back d = Some r" for r
  proof (cases authenticated)
    case False
    with that show ?thesis by (simp add: fetch_historical_data_def)
  next
    case True
    with that obtain st where
      run: "historical_loop fetch now (initial_state (now - timedelta_days (years_back * 365))) = Some st"
      by (auto simp: fetch_historical_data_def Let_def split: option.splits)
    from all_meetings_empty[OF run] none have "all_meetings st = []" by blast
    with that True run show ?thesis by (simp add: fetch_historical_data_def Let_def)
  qed
  have b: "fetch_historical_data authenticated now fetch env years_back d = Some (False, d)"
    if ok: "\<forall>n a b. \<not> isl (fetch n a b)"
  proof -
    obtain st where
      run: "historical_loop fetch now (initial_state (now - timedelta_days (years_back * 365))) = Some st"
      using historical_loop_terminates[of fetch now] ok by blast
    then have "\<exists>r. fetch_historical_data authenticated now fetch env years_back d = Some r"
      by (auto simp: fetch_historical_data_def Let_def)
    then obtain r where r: "fetch_historical_data authenticated now fetch env years_back d = Some r"
      by blast
    with a[OF r] show ?thesis by simp
  qed
  from a b show ?thesis by blast
qed

theorem empty_historical_fetch_witness:
  "(\<forall>n a b. empty_fetch n a b = Inr [])
   \<and> fetch_historical_data True 1704153600000000 empty_fetch sample_env 1 sample_db
       = Some (False, sample_db)"
proof -
  have a: "\<forall>n a b ms. empty_fetch n a b = Inr ms \<longrightarrow> ms = []" by (simp add: empty_fetch_def)
  have b: "\<forall>n a b. \<not> isl (empty_fetch n a b)" by (simp add: empty_fetch_def)
  from empty_historical_fetch[OF a, of True 1704153600000000 sample_env 1 sample_db] b
  have "fetch_historical_data True 1704153600000000 empty_fetch sample_env 1 sample_db
       = Some (False, sample_db)" by blast
  then show ?thesis by (simp add: empty_fetch_def)
qed


subsection \<open>Historical mode of \<open>store_meetings_data\<close>\<close>

lemma store_loop_snoc:
  "store_loop env clr i (ms @ [m]) s = store_one env clr (i + length ms) m (store_loop env clr i ms s)"
  by (induction ms arbitrary: i s) simp_all

lemma select_id_iff:
  "sql_select_id d k \<noteq> None \<longleftrightarrow> (\<exists>r \<in> set (meetings d). matches_event_id k r)"
  by (auto simp: sql_select_id_def find_None_iff)

lemma matches_event_id_iff:
  "matches_event_id k r \<longleftrightarrow> k \<noteq> None \<and> c_event_id r = k"
  by (cases k) (auto simp: matches_event_id_def)

lemma store_one_insert:
  assumes "\<not> raises env i"
  shows "fst (store_one env True i m (d, c)) =
     (if event_id m \<noteq> None \<and> event_id m \<in> c_event_id ` set (meetings d)
      then d\<lparr>id_seq := id_seq d + 1\<rparr>
      else d\<lparr>meetings := meetings d @ [new_row (time_zone d) (txn_now env) (id_seq d) m],
             id_seq := id_seq d + 1\<rparr>)"
  using assms
  by (auto simp: store_one_def sql_insert_def Let_def matches_event_id_iff image_iff)

lemma first_with_event_id_append:
  assumes "i < length ms"
  shows "first_with_event_id (ms @ [m]) i = first_with_event_id ms i"
  using assms by (simp add: first_with_event_id_def nth_append)

lemma first_with_event_id_last:
  "first_with_event_id (ms @ [m]) (length ms)
     \<longleftrightarrow> event_id m = None \<or> event_id m \<notin> set (map event_id ms)"
  by (simp add: first_with_event_id_def)

lemma historical_rows_snoc:
  "historical_rows zone now seq (ms @ [m]) =
     historical_rows zone now seq ms
     @ (if event_id m = None \<or> event_id m \<notin> set (map event_id ms)
        then [new_row zone now (seq + length ms) m] else [])"
proof -
  have f: "filter (first_with_event_id (ms @ [m])) [0 ..< length ms]
           = filter (first_with_event_id ms) [0 ..< length ms]"
    by (rule filter_cong) (simp_all add: first_with_event_id_append)
  have g: "map (\<lambda>i. new_row zone now (seq + i) ((ms @ [m]) ! i)) (filter (first_with_event_id ms) [0 ..< length ms])
           = map (\<lambda>i. new_row zone now (seq + i) (ms ! i)) (filter (first_with_event_id ms) [0 ..< length ms])"
    by (rule map_cong) (simp_all add: nth_append)
  show ?thesis
    unfolding historical_rows_def
    by (simp add: f g first_with_event_id_last del: upt_Suc add: upt_Suc_append)
qed

lemma first_occurrence_exists:
  assumes "k \<in> set (map event_id ms)"
  shows "\<exists>i < length ms. first_with_event_id ms i \<and> event_id (ms ! i) = k"
proof -
  define P where "P = (\<lambda>i. i < length ms \<and> event_id (ms ! i) = k)"
  from assms obtain j where "P j" unfolding P_def by (auto simp: in_set_conv_nth)
  define i where "i = (LEAST i. P i)"
  have Pi: "P i" unfolding i_def using \<open>P j\<close> by (rule LeastI)
  have least: "\<not> P i'" if "i' < i" for i' using that not_less_Least unfolding i_def by blast
  have "k \<notin> set (map event_id (take i ms))"
  proof
    assume "k \<in> set (map event_id (take i ms))"
    then obtain i' where "i' < length (take i ms)" "event_id (take i ms ! i') = k"
      by (auto simp: in_set_conv_nth)
    then have "i' < i" "P i'" using Pi unfolding P_def by simp_all
    with least show False by blast
  qed
  with Pi show ?thesis unfolding P_def first_with_event_id_def by auto
qed

lemma event_ids_historical_rows:
  "c_event_id ` set (historical_rows zone now seq ms) = set (map event_id ms)"
proof
  show "c_event_id ` set (historical_rows zone now seq ms) \<subseteq> set (map event_id ms)"
    by (auto simp: historical_rows_def new_row_def)
next
  show "set (map event_id ms) \<subseteq> c_event_id ` set (historical_rows zone now seq ms)"
  proof
    fix k assume "k \<in> set (map event_id ms)"
    from first_occurrence_exists[OF this] obtain i where
      i: "i < length ms" "first_with_event_id ms i" "event_id (ms ! i) = k" by blast
    then have "new_row zone now (seq + i) (ms ! i) \<in> set (historical_rows zone now seq ms)"
      by (auto simp: historical_rows_def)
    moreover have "c_event_id (new_row zone now (seq + i) (ms ! i)) = k"
      using i(3) by (simp add: new_row_def)
    ultimately show "k \<in> c_event_id ` set (historical_rows zone now seq ms)" by force
  qed
qed

lemma historical_loop_rows:
  assumes "quiet env (length ms)" and "meetings d = []"
  shows "fst (store_loop env True 0 ms (d, c)) =
           d\<lparr>meetings := historical_rows (time_zone d) (txn_now env) (id_seq d) ms,
             id_seq := id_seq d + length ms\<rparr>"
  using assms(1)
proof (induction ms rule: rev_induct)
  case Nil
  show ?case using assms(2) by (simp add: historical_rows_def)
next
  case (snoc m ms)
  from snoc.prems have q: "quiet env (length ms)" and nr: "\<not> raises env (length ms)"
    by (simp_all add: quiet_def)
  obtain d' c' where s: "store_loop env True 0 ms (d, c) = (d', c')" by (cases "store_loop env True 0 ms (d, c)")
  from snoc.IH[OF q] s have d': "d' = d\<lparr>meetings := historical_rows (time_zone d) (txn_now env) (id_seq d) ms,
      id_seq := id_seq d + length ms\<rparr>" by simp
  show ?case
    unfolding store_loop_snoc s
    by (simp add: store_one_insert[OF nr] d' event_ids_historical_rows historical_rows_snoc)
qed

lemmas store_eval =
  store_meetings_data_def store_batch_def store_one_def sql_insert_def sql_update_def
  sql_select_id_def sql_delete_all_def matches_event_id_def Let_def sample_env_def
  sample_db_def empty_db_def sample_zone_def to_timestamp_def

lemma sample_quiet: "quiet sample_env n"
  by (simp add: quiet_def sample_env_def)

lemma sample_connect: "connect_ok sample_env"
  by (simp add: sample_env_def)

lemma first_incremental_run:
  "snd (store_meetings_data sample_env [sample_meeting, rescheduled_meeting] False empty_db)
     = \<lparr>meetings = [new_row sample_zone (txn_now sample_env) 1 rescheduled_meeting], id_seq = 2,
          time_zone = sample_zone\<rparr>"
  by (simp add: store_eval new_row_def sample_meeting_def rescheduled_meeting_def update_row_def)


text \<open>
  C2, as stated, fails. A historical batch with two records of the same \<open>event_id\<close>
  (the sample, and the sample with its summary changed) leaves one row, with the first
  summary: the second record that the source returned is not in the store.
\<close>

theorem historical_replace_counterexample:
  "map c_summary
     (meetings (snd (store_meetings_data sample_env [sample_meeting, rescheduled_meeting] True
        sample_db)))
   = [Some ''Sync'']"
  by (simp add: store_eval new_row_def sample_meeting_def rescheduled_meeting_def)



text \<open>
  C2, amended. In historical mode, with a connection and no statement raising, the call
  returns \<open>True\<close> and the table afterwards holds exactly one new row for every record that
  is the first of the batch with its \<open>event_id\<close> or has none, in the order of the batch; a
  record whose \<open>event_id\<close> an earlier record of the batch has is suppressed by
  \<open>ON CONFLICT DO NOTHING\<close>. No row of the table before the call survives.
\<close>

theorem historical_replace:
  assumes "connect_ok env" and "quiet env (length meetings_data)"
  shows "store_meetings_data env meetings_data True d =
           (True, d\<lparr>meetings := historical_rows (time_zone d) (txn_now env) (id_seq d) meetings_data,
                    id_seq := id_seq d + length meetings_data\<rparr>)"
  using assms(1) historical_loop_rows[OF assms(2), of "sql_delete_all d"]
  by (simp add: store_meetings_data_def store_batch_def sql_delete_all_def)


theorem historical_replace_witness:
  "connect_ok sample_env \<and> quiet sample_env 2
   \<and> store_meetings_data sample_env [sample_meeting, rescheduled_meeting] True sample_db
      = (True, \<lparr>meetings = [new_row sample_zone (txn_now sample_env) 2 sample_meeting], id_seq = 4,
          time_zone = sample_zone\<rparr>)"
proof -
  have q: "quiet sample_env (length [sample_meeting, rescheduled_meeting])" by (rule sample_quiet)
  have "historical_rows sample_zone (txn_now sample_env) (id_seq sample_db) [sample_meeting, rescheduled_meeting]
        = [new_row sample_zone (txn_now sample_env) 2 sample_meeting]"
    by (simp add: historical_rows_def first_with_event_id_def upt_rec sample_db_def
        sample_meeting_def rescheduled_meeting_def numeral_2_eq_2)
  with historical_replace[OF sample_connect q, of sample_db]
  show ?thesis by (simp add: sample_connect sample_quiet sample_db_def)
qed


subsection \<open>Incremental mode of \<open>store_meetings_data\<close>\<close>

lemma update_row_update_row: "update_row zone m (update_row zone m' r) = update_row zone m r"
  by (simp add: update_row_def)

lemma update_row_new_row: "update_row zone m (new_row zone now i m) = new_row zone now i m"
  by (simp add: update_row_def new_row_def)

lemma event_id_update_row: "c_event_id (update_row zone m r) = c_event_id r"
  by (simp add: update_row_def)

lemma matches_update_row: "matches_event_id k (update_row zone m r) = matches_event_id k r"
  by (simp add: matches_event_id_iff event_id_update_row)

lemma matches_apply_update: "matches_event_id k (apply_update zone r m) = matches_event_id k r"
  by (simp add: apply_update_def matches_update_row)

lemma matches_new_row: "matches_event_id k (new_row zone now i m) \<longleftrightarrow> k \<noteq> None \<and> event_id m = k"
  by (simp add: matches_event_id_iff new_row_def)

lemma sql_update_rows:
  "meetings (sql_update m d) = map (\<lambda>r. apply_update (time_zone d) r m) (meetings d)"
  by (simp add: sql_update_def apply_update_def)

lemma apply_updates_snoc: "apply_updates zone (ms @ [m]) r = apply_update zone (apply_updates zone ms r) m"
  by (simp add: apply_updates_def)

lemma apply_updates_Cons: "apply_updates zone (m # ms) r = apply_updates zone ms (apply_update zone r m)"
  by (simp add: apply_updates_def)

text \<open>A batch leaves a row alone that none of its records matches.\<close>

lemma apply_updates_unmatched:
  assumes "\<forall>m \<in> set ms. \<not> matches_event_id (event_id m) r"
  shows "apply_updates zone ms r = r"
  using assms by (induction ms rule: rev_induct) (simp_all add: apply_updates_snoc apply_update_def apply_updates_def)

lemma matches_apply_updates: "matches_event_id k (apply_updates zone ms r) = matches_event_id k r"
  by (induction ms rule: rev_induct) (simp_all add: apply_updates_snoc matches_apply_update apply_updates_def)

text \<open>
  Once a record of the batch matches a row, the batch overwrites whatever an earlier
  update wrote into the row.
\<close>

lemma apply_updates_overwrite:
  assumes "\<exists>m \<in> set ms. matches_event_id (event_id m) r"
  shows "apply_updates zone ms (update_row zone m0 r) = apply_updates zone ms r"
  using assms
proof (induction ms rule: rev_induct)
  case Nil
  then show ?case by simp
next
  case (snoc m ms)
  show ?case
  proof (cases "matches_event_id (event_id m) r")
    case True
    have step: "apply_updates zone (ms @ [m]) x = update_row zone m (apply_updates zone ms x)"
      if "matches_event_id (event_id m) x" for x
      using that by (simp add: apply_updates_snoc apply_update_def matches_apply_updates)
    have inner: "update_row zone m (apply_updates zone ms (update_row zone m0 r)) = update_row zone m (apply_updates zone ms r)"
    proof (cases "\<exists>m' \<in> set ms. matches_event_id (event_id m') r")
      case True
      from snoc.IH[OF this] show ?thesis by simp
    next
      case False
      then have "apply_updates zone ms r = r" by (intro apply_updates_unmatched) simp
      moreover from False have "apply_updates zone ms (update_row zone m0 r) = update_row zone m0 r"
        by (intro apply_updates_unmatched) (simp add: matches_update_row)
      ultimately show ?thesis by (simp add: update_row_update_row)
    qed
    from True show ?thesis
      by (simp add: step matches_update_row inner)
  next
    case False
    with snoc.prems have ex: "\<exists>m' \<in> set ms. matches_event_id (event_id m') r" by auto
    have step: "apply_updates zone (ms @ [m]) x = apply_updates zone ms x"
      if "\<not> matches_event_id (event_id m) x" for x
      using that by (simp add: apply_updates_snoc apply_update_def matches_apply_updates)
    from False snoc.IH[OF ex] show ?thesis
      by (simp add: step matches_update_row)
  qed
qed

lemma apply_updates_settled_step:
  assumes settled: "apply_updates zone ms r = r" and m: "matches_event_id (event_id m) r"
  shows "apply_updates zone (ms @ [m]) (update_row zone m r) = update_row zone m r"
proof (cases "\<exists>m' \<in> set ms. matches_event_id (event_id m') r")
  case True
  from apply_updates_overwrite[OF this] settled
  have "apply_updates zone ms (update_row zone m r) = r" by simp
  with m show ?thesis by (simp add: apply_updates_snoc apply_update_def)
next
  case False
  then have "apply_updates zone ms (update_row zone m r) = update_row zone m r"
    by (intro apply_updates_unmatched) (simp add: matches_update_row)
  with m show ?thesis
    by (simp add: apply_updates_snoc apply_update_def matches_update_row update_row_update_row)
qed

lemma sql_update_zone: "time_zone (sql_update m d) = time_zone d"
  by (simp add: sql_update_def)

lemma store_one_zone: "time_zone (fst (store_one env clr i m s)) = time_zone (fst s)"
  by (simp add: store_one_def sql_insert_def sql_update_def Let_def)

lemma store_loop_zone: "time_zone (fst (store_loop env clr i ms s)) = time_zone (fst s)"
  by (induction ms arbitrary: i s) (simp_all add: store_one_zone)

lemma store_one_update:
  assumes "\<not> raises env i" and "\<exists>r \<in> set (meetings d). matches_event_id (event_id m) r"
  shows "store_one env False i m (d, c) = (sql_update m d, c\<lparr>updated := updated c + 1\<rparr>)"
  using assms select_id_iff[of d "event_id m"]
  by (auto simp: store_one_def Let_def)

lemma store_one_append:
  assumes "\<not> raises env i" and "\<not> (\<exists>r \<in> set (meetings d). matches_event_id (event_id m) r)"
  shows "fst (store_one env False i m (d, c)) =
           d\<lparr>meetings := meetings d @ [new_row (time_zone d) (txn_now env) (id_seq d) m],
             id_seq := id_seq d + 1\<rparr>"
  using assms select_id_iff[of d "event_id m"]
  by (auto simp: store_one_def sql_insert_def Let_def)

text \<open>
  After an incremental batch in which no statement raises and every record has an
  \<open>event_id\<close>: every row holds what the batch's updates would write into it, and every
  record of the batch has a row.
\<close>

lemma incremental_loop_settled:
  assumes "quiet env (length ms)" and "\<forall>m \<in> set ms. event_id m \<noteq> None"
  shows "(\<forall>r \<in> set (meetings (fst (store_loop env False 0 ms (d, c)))).
            apply_updates (time_zone d) ms r = r)
       \<and> (\<forall>m \<in> set ms. \<exists>r \<in> set (meetings (fst (store_loop env False 0 ms (d, c)))).
              matches_event_id (event_id m) r)"
  using assms
proof (induction ms rule: rev_induct)
  case Nil
  show ?case by (simp add: apply_updates_def)
next
  case (snoc m ms)
  define zone where "zone = time_zone d"
  from snoc.prems have q: "quiet env (length ms)" and nr: "\<not> raises env (length ms)"
    and ids: "\<forall>m \<in> set ms. event_id m \<noteq> None" and idm: "event_id m \<noteq> None"
    by (simp_all add: quiet_def)
  obtain d1 c1 where s: "store_loop env False 0 ms (d, c) = (d1, c1)"
    by (cases "store_loop env False 0 ms (d, c)")
  have z1: "time_zone d1 = zone"
    using store_loop_zone[of env False 0 ms "(d, c)"] s by (simp add: zone_def)
  from snoc.IH[OF q ids] s have
    settled: "\<forall>r \<in> set (meetings d1). apply_updates zone ms r = r" and
    present: "\<forall>m \<in> set ms. \<exists>r \<in> set (meetings d1). matches_event_id (event_id m) r"
    by (simp_all add: zone_def)
  show ?case
  proof (cases "\<exists>r \<in> set (meetings d1). matches_event_id (event_id m) r")
    case True
    then have d2: "fst (store_loop env False 0 (ms @ [m]) (d, c)) = sql_update m d1"
      unfolding store_loop_snoc s by (simp add: store_one_update[OF nr])
    have "apply_updates zone (ms @ [m]) (apply_update zone r m) = apply_update zone r m"
      if r: "r \<in> set (meetings d1)" for r
    proof (cases "matches_event_id (event_id m) r")
      case True
      with apply_updates_settled_step[OF _ True] settled r show ?thesis
        by (simp add: apply_update_def)
    next
      case False
      with settled r show ?thesis
        by (simp add: apply_update_def apply_updates_snoc)
    qed
    moreover have "\<exists>r \<in> set (meetings d1). matches_event_id (event_id m') (apply_update zone r m)"
      if "m' \<in> set (ms @ [m])" for m'
      using that present True by (auto simp: matches_apply_update)
    ultimately show ?thesis
      unfolding d2 sql_update_rows z1 zone_def[symmetric] by auto
  next
    case False
    then have d2: "fst (store_loop env False 0 (ms @ [m]) (d, c)) =
        d1\<lparr>meetings := meetings d1 @ [new_row zone (txn_now env) (id_seq d1) m],
           id_seq := id_seq d1 + 1\<rparr>"
      unfolding store_loop_snoc s by (simp add: store_one_append[OF nr] z1)
    have old: "apply_updates zone (ms @ [m]) r = r" if r: "r \<in> set (meetings d1)" for r
      using settled r False by (simp add: apply_updates_snoc apply_update_def)
    have nomatch: "\<not> matches_event_id (event_id m') (new_row zone (txn_now env) (id_seq d1) m)"
      if m': "m' \<in> set ms" for m'
    proof
      assume "matches_event_id (event_id m') (new_row zone (txn_now env) (id_seq d1) m)"
      then have eq: "event_id m = event_id m'" by (simp add: matches_new_row)
      from present m' obtain r where "r \<in> set (meetings d1)" "matches_event_id (event_id m') r"
        by blast
      with False eq show False by auto
    qed
    then have "apply_updates zone ms (new_row zone (txn_now env) (id_seq d1) m)
                 = new_row zone (txn_now env) (id_seq d1) m"
      by (intro apply_updates_unmatched) simp
    then have new: "apply_updates zone (ms @ [m]) (new_row zone (txn_now env) (id_seq d1) m)
                = new_row zone (txn_now env) (id_seq d1) m"
      by (simp add: apply_updates_snoc apply_update_def update_row_new_row)
    have "\<exists>r \<in> set (meetings d1 @ [new_row zone (txn_now env) (id_seq d1) m]).
            matches_event_id (event_id m') r"
      if "m' \<in> set (ms @ [m])" for m'
      using that present idm by (auto simp: matches_new_row)
    with old new show ?thesis unfolding d2 zone_def[symmetric] by auto
  qed
qed

text \<open>A batch all of whose records have a row consists of updates only.\<close>

lemma updates_only:
  assumes "\<forall>m \<in> set ms. \<exists>r \<in> set (meetings d). matches_event_id (event_id m) r"
    and "\<forall>j. i \<le> j \<and> j < i + length ms \<longrightarrow> \<not> raises env j"
  shows "store_loop env False i ms (d, c) =
           (d\<lparr>meetings := map (apply_updates (time_zone d) ms) (meetings d)\<rparr>,
            c\<lparr>updated := updated c + length ms\<rparr>)"
  using assms
proof (induction ms arbitrary: d c i)
  case Nil
  show ?case by (simp add: apply_updates_def)
next
  case (Cons m ms)
  from Cons.prems(2) have nr: "\<not> raises env i"
    and rest: "\<forall>j. Suc i \<le> j \<and> j < Suc i + length ms \<longrightarrow> \<not> raises env j" by simp_all
  from Cons.prems(1) have ex: "\<exists>r \<in> set (meetings d). matches_event_id (event_id m) r" by simp
  have one: "store_one env False i m (d, c) = (sql_update m d, c\<lparr>updated := updated c + 1\<rparr>)"
    using ex by (rule store_one_update[OF nr])
  have pres: "\<forall>m' \<in> set ms. \<exists>r \<in> set (meetings (sql_update m d)). matches_event_id (event_id m') r"
    using Cons.prems(1) by (auto simp: sql_update_rows matches_apply_update)
  have "store_loop env False (Suc i) ms (sql_update m d, c\<lparr>updated := updated c + 1\<rparr>) =
          ((sql_update m d)\<lparr>meetings := map (apply_updates (time_zone d) ms) (meetings (sql_update m d))\<rparr>,
           c\<lparr>updated := updated c + 1 + length ms\<rparr>)"
    using Cons.IH[OF pres rest] by (simp add: sql_update_zone)
  then show ?case
    by (simp add: one sql_update_rows sql_update_def apply_updates_Cons comp_def apply_update_def)
qed

text \<open>
  C1, as stated, fails. A record without \<open>event_id\<close> is matched by no \<open>SELECT\<close> and by no
  conflict: stored incrementally into the empty table it gives one row, and the second run
  over the same record gives two.
\<close>

theorem incremental_idempotence_counterexample:
  "length (meetings (snd (store_meetings_data sample_env [anonymous_meeting] False empty_db))) = 1
   \<and> length (meetings (snd (store_meetings_data sample_env [anonymous_meeting] False
        (snd (store_meetings_data sample_env [anonymous_meeting] False empty_db))))) = 2"
  by (simp add: store_eval anonymous_meeting_def sample_meeting_def)

text \<open>
  C1, amended. For every table and every batch all of whose records have an \<open>event_id\<close>:
  when both runs have a connection and no statement raises in either, the second
  incremental run over the same records returns \<open>True\<close> and leaves the table (rows and
  sequence) exactly as the first run left it; every record is counted as updated, none as
  inserted or skipped.
\<close>

theorem incremental_idempotence:
  assumes conn: "connect_ok env1" "connect_ok env2"
    and q: "quiet env1 (length meetings_data)" "quiet env2 (length meetings_data)"
    and ids: "\<forall>m \<in> set meetings_data. event_id m \<noteq> None"
  shows "store_meetings_data env2 meetings_data False
           (snd (store_meetings_data env1 meetings_data False d))
         = (True, snd (store_meetings_data env1 meetings_data False d))
       \<and> snd (store_batch env2 meetings_data False
                (snd (store_meetings_data env1 meetings_data False d)))
         = \<lparr>inserted = 0, updated = length meetings_data, skipped = 0\<rparr>"
proof -
  define c0 where "c0 = \<lparr>inserted = 0, updated = 0, skipped = 0\<rparr>"
  define d1 where "d1 = fst (store_loop env1 False 0 meetings_data (d, c0))"
  have first: "snd (store_meetings_data env1 meetings_data False d) = d1"
    using conn(1) by (simp add: store_meetings_data_def store_batch_def d1_def c0_def)
  have z1: "time_zone d1 = time_zone d"
    unfolding d1_def using store_loop_zone[of env1 False 0 meetings_data "(d, c0)"] by simp
  from incremental_loop_settled[OF q(1) ids, of d c0] have
    settled: "\<forall>r \<in> set (meetings d1). apply_updates (time_zone d1) meetings_data r = r" and
    present: "\<forall>m \<in> set meetings_data. \<exists>r \<in> set (meetings d1). matches_event_id (event_id m) r"
    unfolding d1_def[symmetric] z1 by simp_all
  have quiet2: "\<forall>j. 0 \<le> j \<and> j < 0 + length meetings_data \<longrightarrow> \<not> raises env2 j"
    using q(2) by (simp add: quiet_def)
  have same: "map (apply_updates (time_zone d1) meetings_data) (meetings d1) = meetings d1"
    using settled by (simp add: map_idI)
  have second: "store_loop env2 False 0 meetings_data (d1, c0)
                  = (d1, c0\<lparr>updated := updated c0 + length meetings_data\<rparr>)"
    unfolding updates_only[OF present quiet2] same by simp
  show ?thesis
    unfolding first using conn(2) second
    by (simp add: store_meetings_data_def store_batch_def c0_def)
qed

theorem incremental_idempotence_witness:
  "connect_ok sample_env \<and> quiet sample_env 2
   \<and> map event_id [sample_meeting, rescheduled_meeting] = [Some ''abc123'', Some ''abc123'']
   \<and> store_meetings_data sample_env [sample_meeting, rescheduled_meeting] False
        \<lparr>meetings = [new_row sample_zone (txn_now sample_env) 1 rescheduled_meeting], id_seq = 2,
         time_zone = sample_zone\<rparr>
      = (True, \<lparr>meetings = [new_row sample_zone (txn_now sample_env) 1 rescheduled_meeting],
                id_seq = 2, time_zone = sample_zone\<rparr>)
   \<and> snd (store_batch sample_env [sample_meeting, rescheduled_meeting] False
        \<lparr>meetings = [new_row sample_zone (txn_now sample_env) 1 rescheduled_meeting], id_seq = 2,
         time_zone = sample_zone\<rparr>)
      = \<lparr>inserted = 0, updated = 2, skipped = 0\<rparr>"
proof -
  have ids: "\<forall>m \<in> set [sample_meeting, rescheduled_meeting]. event_id m \<noteq> None"
    by (simp add: sample_meeting_def rescheduled_meeting_def)
  have q: "quiet sample_env (length [sample_meeting, rescheduled_meeting])" by (rule sample_quiet)
  from incremental_idempotence[OF sample_connect sample_connect q q ids, of empty_db]
  show ?thesis
    unfolding first_incremental_run
    by (simp add: sample_connect sample_quiet) (simp add: sample_meeting_def rescheduled_meeting_def)
qed

subsection \<open>Start and end times of stored rows\<close>

text \<open>A difference that is not positive gives minutes that are not positive.\<close>

lemma round_half_even_nonneg: "0 \<le> x \<Longrightarrow> 0 \<le> round_half_even x"
proof -
  assume "0 \<le> x"
  then have "0 \<le> \<lfloor>x\<rfloor>" by simp
  then show ?thesis by (simp add: round_half_even_def Let_def)
qed

lemma binary64_round_nonpos: "x \<le> 0 \<Longrightarrow> binary64_round x \<le> 0"
proof -
  assume x: "x \<le> 0"
  have "0 \<le> round_half_even (\<bar>x\<bar> * 2 ^ 1074 / 2 ^ binary64_drop x)"
    by (rule round_half_even_nonneg) simp
  then have b: "0 \<le> (of_int (round_half_even (\<bar>x\<bar> * 2 ^ 1074 / 2 ^ binary64_drop x)) :: rat)
                    * 2 ^ binary64_drop x / 2 ^ 1074"
    by simp
  have a: "sgn x \<le> 0" using x by (simp add: sgn_if)
  show ?thesis
    unfolding binary64_round_def by (rule mult_nonpos_nonneg[OF a b])
qed

lemma minutes_between_nonpos: "td \<le> 0 \<Longrightarrow> minutes_between td \<le> 0"
proof -
  assume "td \<le> 0"
  then have "(of_int td :: rat) / 1000000 \<le> 0" by (simp add: divide_nonpos_pos)
  then have "total_seconds td \<le> 0" unfolding total_seconds_def by (rule binary64_round_nonpos)
  then have "total_seconds td / 60 \<le> 0" by (simp add: divide_nonpos_pos)
  then have m: "float_div (total_seconds td) 60 \<le> 0"
    unfolding float_div_def by (rule binary64_round_nonpos)
  show ?thesis
  proof (cases "float_div (total_seconds td) 60 = 0")
    case True
    then show ?thesis by (simp add: minutes_between_def py_int_def)
  next
    case False
    with m have "float_div (total_seconds td) 60 < 0" by simp
    then show ?thesis by (simp add: minutes_between_def py_int_def ceiling_le_zero)
  qed
qed

lemma normalize_event_nonpositive:
  assumes "normalize_event fromisoformat ev = Some m"
    and "micros (end_time m) \<le> micros (start_time m)"
  shows "duration_minutes m \<le> 0"
  using normalize_event_duration[OF assms(1)] assms(2) by (simp add: minutes_between_nonpos)

lemma fetch_calendar_data_loop_map_filter:
  "fetch_calendar_data_loop p evs acc = acc @ List.map_filter (normalize_event p) evs"
  by (induction evs arbitrary: acc) (simp_all add: map_filter_simps split: option.splits)

lemma fetch_calendar_data_map_filter:
  "fetch_calendar_data p evs = List.map_filter (normalize_event p) evs"
  by (simp add: fetch_calendar_data_def fetch_calendar_data_loop_map_filter)

text \<open>Where the rows of the table after a call come from.\<close>

lemma store_one_origin:
  assumes "r \<in> set (meetings (fst (store_one env clr i m s)))"
  shows "r \<in> set (meetings (fst s)) \<or> carries_times (time_zone (fst s)) m r"
  using assms
  by (auto simp: store_one_def sql_insert_def sql_update_def Let_def carries_times_def
      update_row_def new_row_def split: if_splits)

lemma store_loop_origin:
  assumes "r \<in> set (meetings (fst (store_loop env clr i ms s)))"
  shows "r \<in> set (meetings (fst s)) \<or> (\<exists>m \<in> set ms. carries_times (time_zone (fst s)) m r)"
  using assms
proof (induction ms arbitrary: i s)
  case Nil
  then show ?case by simp
next
  case (Cons m ms)
  from Cons.IH[of "i + 1" "store_one env clr i m s"] Cons.prems
  have "r \<in> set (meetings (fst (store_one env clr i m s)))
        \<or> (\<exists>m \<in> set ms. carries_times (time_zone (fst s)) m r)"
    by (simp add: store_one_zone)
  with store_one_origin[of r env clr i m s] show ?case by auto
qed

lemma store_meetings_data_origin:
  assumes "r \<in> set (meetings (snd (store_meetings_data env ms clr d)))"
  shows "r \<in> set (meetings d) \<or> (\<exists>m \<in> set ms. carries_times (time_zone d) m r)"
proof (cases "connect_ok env")
  case False
  with assms show ?thesis by (simp add: store_meetings_data_def)
next
  case True
  with assms have "r \<in> set (meetings (fst (store_loop env clr 0 ms
      (if clr then sql_delete_all d else d, \<lparr>inserted = 0, updated = 0, skipped = 0\<rparr>))))"
    by (simp add: store_meetings_data_def store_batch_def)
  from store_loop_origin[OF this] show ?thesis
    by (auto simp: sql_delete_all_def split: if_splits)
qed

text \<open>
  A record whose statements do not raise and whose \<open>event_id\<close> no other record of the batch
  has gets a row, whatever its times are.
\<close>

lemma store_loop_append:
  "store_loop env clr i (xs @ ys) s = store_loop env clr (i + length xs) ys (store_loop env clr i xs s)"
  by (induction xs arbitrary: i s) simp_all

lemma store_one_event_ids:
  "c_event_id ` set (meetings (fst (store_one env clr i m s)))
     \<subseteq> c_event_id ` set (meetings (fst s)) \<union> {event_id m}"
  by (auto simp: store_one_def sql_insert_def sql_update_def Let_def update_row_def new_row_def
      split: if_splits)

lemma store_loop_event_ids:
  "c_event_id ` set (meetings (fst (store_loop env clr i ms s)))
     \<subseteq> c_event_id ` set (meetings (fst s)) \<union> event_id ` set ms"
proof (induction ms arbitrary: i s)
  case Nil
  show ?case by simp
next
  case (Cons m ms)
  from Cons.IH[of "i + 1" "store_one env clr i m s"] store_one_event_ids[of env clr i m s]
  show ?case by auto
qed

lemma store_one_keeps:
  assumes "r \<in> set (meetings (fst s))" and "\<not> matches_event_id (event_id m) r"
  shows "r \<in> set (meetings (fst (store_one env clr i m s)))"
proof -
  from assms have "(if matches_event_id (event_id m) r then update_row (time_zone (fst s)) m r else r)
        \<in> (\<lambda>r. if matches_event_id (event_id m) r then update_row (time_zone (fst s)) m r else r)
            ` set (meetings (fst s))"
    by (intro imageI)
  with assms show ?thesis
    by (auto simp: store_one_def sql_insert_def sql_update_def Let_def)
qed

lemma store_loop_keeps:
  assumes "r \<in> set (meetings (fst s))" and "\<forall>m \<in> set ms. \<not> matches_event_id (event_id m) r"
  shows "r \<in> set (meetings (fst (store_loop env clr i ms s)))"
  using assms
proof (induction ms arbitrary: i s)
  case Nil
  then show ?case by simp
next
  case (Cons m ms)
  from Cons.prems have "r \<in> set (meetings (fst (store_one env clr i m s)))"
    by (intro store_one_keeps) simp_all
  with Cons.IH[of "store_one env clr i m s" "i + 1"] Cons.prems(2) show ?case by simp
qed

lemma store_one_row:
  assumes nr: "\<not> raises env i"
    and free: "clr \<longrightarrow> \<not> (\<exists>r \<in> set (meetings (fst s)). matches_event_id (event_id m) r)"
  shows "\<exists>r \<in> set (meetings (fst (store_one env clr i m s))).
           carries_times (time_zone (fst s)) m r \<and> c_event_id r = event_id m"
proof (cases "\<exists>r \<in> set (meetings (fst s)). matches_event_id (event_id m) r")
  case True
  with free have inc: "\<not> clr" by blast
  from True obtain r where r: "r \<in> set (meetings (fst s))" "matches_event_id (event_id m) r"
    by blast
  have "fst (store_one env clr i m s) = sql_update m (fst s)"
    using store_one_update[OF nr True, of "snd s"] inc by simp
  moreover have "update_row (time_zone (fst s)) m r \<in> set (meetings (sql_update m (fst s)))"
    using r by (force simp: sql_update_rows apply_update_def)
  moreover have "carries_times (time_zone (fst s)) m (update_row (time_zone (fst s)) m r)"
    by (simp add: carries_times_def update_row_def)
  moreover have "c_event_id (update_row (time_zone (fst s)) m r) = event_id m"
    using r(2) by (simp add: event_id_update_row matches_event_id_iff)
  ultimately show ?thesis by auto
next
  case False
  then have "new_row (time_zone (fst s)) (txn_now env) (id_seq (fst s)) m
               \<in> set (meetings (fst (store_one env clr i m s)))"
    using nr select_id_iff[of "fst s" "event_id m"]
    by (auto simp: store_one_def sql_insert_def Let_def)
  moreover have "carries_times (time_zone (fst s)) m
                   (new_row (time_zone (fst s)) (txn_now env) (id_seq (fst s)) m)"
    by (simp add: carries_times_def new_row_def)
  moreover have "c_event_id (new_row (time_zone (fst s)) (txn_now env) (id_seq (fst s)) m) = event_id m"
    by (simp add: new_row_def)
  ultimately show ?thesis by blast
qed

lemma store_loop_row:
  assumes i: "i < length ms" and nr: "\<not> raises env i" and alone: "alone_in_batch ms i"
    and empty: "clr \<longrightarrow> meetings (fst s) = []"
  shows "\<exists>r \<in> set (meetings (fst (store_loop env clr 0 ms s))).
           carries_times (time_zone (fst s)) (ms ! i) r \<and> c_event_id r = event_id (ms ! i)"
proof -
  define m where "m = ms ! i"
  define pre where "pre = take i ms"
  define post where "post = drop (Suc i) ms"
  have split: "ms = pre @ [m] @ post"
    unfolding pre_def post_def m_def using i by (simp add: id_take_nth_drop[symmetric])
  have lp: "length pre = i" unfolding pre_def using i by simp
  have others: "event_id m' \<noteq> event_id m \<or> event_id m = None"
    if "m' \<in> set pre \<or> m' \<in> set post" for m'
  proof (cases "event_id m = None")
    case True
    then show ?thesis by simp
  next
    case False
    have uniq: "\<forall>j < length ms. j \<noteq> i \<longrightarrow> event_id (ms ! j) \<noteq> event_id (ms ! i)"
      using False alone unfolding alone_in_batch_def m_def by auto
    from that obtain j where "j < length ms" "j \<noteq> i" "ms ! j = m'"
    proof
      assume "m' \<in> set pre"
      then obtain j where "j < length pre" "pre ! j = m'" by (auto simp: in_set_conv_nth)
      then have "j < length ms" "j \<noteq> i" "ms ! j = m'" using lp i by (auto simp: pre_def)
      then show ?thesis using that by blast
    next
      assume "m' \<in> set post"
      then obtain j where j: "j < length post" "post ! j = m'" by (auto simp: in_set_conv_nth)
      then have "Suc i + j < length ms" "Suc i + j \<noteq> i" "ms ! (Suc i + j) = m'"
        using i by (auto simp: post_def)
      then show ?thesis using that by blast
    qed
    with uniq show ?thesis by (auto simp: m_def)
  qed
  define s1 where "s1 = store_loop env clr 0 pre s"
  define s2 where "s2 = store_one env clr i m s1"
  have fin: "store_loop env clr 0 ms s = store_loop env clr (Suc i) post s2"
    unfolding s2_def s1_def by (subst split) (simp add: store_loop_append lp)
  have z1: "time_zone (fst s1) = time_zone (fst s)"
    unfolding s1_def by (rule store_loop_zone)
  have free: "clr \<longrightarrow> \<not> (\<exists>r \<in> set (meetings (fst s1)). matches_event_id (event_id m) r)"
  proof (intro impI notI)
    assume clr: clr and "\<exists>r \<in> set (meetings (fst s1)). matches_event_id (event_id m) r"
    then obtain r where r: "r \<in> set (meetings (fst s1))" "event_id m \<noteq> None"
      "c_event_id r = event_id m" by (auto simp: matches_event_id_iff)
    from r(1) have "c_event_id r \<in> c_event_id ` set (meetings (fst s)) \<union> event_id ` set pre"
      using store_loop_event_ids[of env clr 0 pre s] unfolding s1_def by blast
    with clr empty have "c_event_id r \<in> event_id ` set pre" by simp
    then obtain m' where "m' \<in> set pre" "event_id m' = event_id m" using r(3) by auto
    with others[of m'] r(2) show False by simp
  qed
  from store_one_row[OF nr free] obtain r where
    r: "r \<in> set (meetings (fst s2))" "carries_times (time_zone (fst s)) m r"
       "c_event_id r = event_id m"
    unfolding s2_def z1 by blast
  have "\<forall>m' \<in> set post. \<not> matches_event_id (event_id m') r"
    using others r(3) by (auto simp: matches_event_id_iff)
  from store_loop_keeps[OF r(1) this] r(2,3) show ?thesis
    unfolding fin m_def by blast
qed

lemma store_meetings_data_row:
  assumes "connect_ok env" and "i < length ms" and "\<not> raises env i" and "alone_in_batch ms i"
  shows "\<exists>r \<in> set (meetings (snd (store_meetings_data env ms clr d))).
           carries_times (time_zone d) (ms ! i) r \<and> c_event_id r = event_id (ms ! i)"
  using assms(1)
    store_loop_row[OF assms(2,3,4), of clr
      "(if clr then sql_delete_all d else d, \<lparr>inserted = 0, updated = 0, skipped = 0\<rparr>)"]
  by (simp add: store_meetings_data_def store_batch_def sql_delete_all_def split: if_splits)

lemma fetch_calendar_data_loop_set:
  "set (fetch_calendar_data_loop p evs acc)
     = set acc \<union> {m. \<exists>ev \<in> set evs. normalize_event p ev = Some m}"
  by (induction evs arbitrary: acc) (auto split: option.splits)

lemma fetch_calendar_data_set:
  "set (fetch_calendar_data p evs) = {m. \<exists>ev \<in> set evs. normalize_event p ev = Some m}"
  by (simp add: fetch_calendar_data_def fetch_calendar_data_loop_set)

lemma normalize_event_acceptable: "normalize_event p ev \<noteq> None \<longleftrightarrow> acceptable p ev"
  by (auto simp: normalize_event_def acceptable_def calculate_duration_def dt_sub_def Let_def
      truthy_def string_of_def split: option.splits sum.splits prod.splits if_splits)

lemma minutes_between_reversed: "minutes_between (- 1800000000) = - 30"
  by (simp add: minutes_between_truncated truncated_minutes_def)

lemma normalize_reversed:
  "normalize_event sample_fromisoformat reversed_event = Some reversed_meeting"
  by (simp add: normalize_simps reversed_event_def reversed_meeting_def minutes_between_reversed)

text \<open>
  C6, as stated, fails. The sample event that ends half an hour before it starts passes
  \<open>fetch_calendar_data\<close> and is stored: the row has \<open>end_time\<close> before \<open>start_time\<close> and
  \<open>duration_minutes = -30\<close>.
\<close>

theorem nonpositive_duration_counterexample:
  "map c_start_time (meetings (snd (store_meetings_data sample_env
      (fetch_calendar_data sample_fromisoformat [reversed_event]) True empty_db)))
     = [1704105000000000]
   \<and> map c_end_time (meetings (snd (store_meetings_data sample_env
      (fetch_calendar_data sample_fromisoformat [reversed_event]) True empty_db)))
     = [1704103200000000]
   \<and> map c_duration_minutes (meetings (snd (store_meetings_data sample_env
      (fetch_calendar_data sample_fromisoformat [reversed_event]) True empty_db)))
     = [Some (- 30)]"
  by (simp add: fetch_calendar_data_single normalize_reversed store_eval)
     (simp add: new_row_def reversed_meeting_def sample_meeting_def to_timestamp_def
       sample_zone_def)

text \<open>
  C6, amended. Neither function compares \<open>end_time\<close> with \<open>start_time\<close>.
  \<open>fetch_calendar_data\<close> rejects an event exactly when its start or end time is missing,
  empty, not parsed, or one is naive and the other aware, and returns one record for every
  other event, in order; a record whose \<open>end_time\<close> is not after its \<open>start_time\<close> has
  \<open>duration_minutes \<le> 0\<close>. \<open>store_meetings_data\<close>, run on these records with a
  connection and no statement raising, leaves a row with the \<open>start_time\<close>, \<open>end_time\<close>
  (as the \<open>TIMESTAMP\<close> columns hold them) and \<open>duration_minutes\<close> of every record whose
  \<open>event_id\<close> no other record of the batch has, in either mode and whatever the order of
  its times. Every row in the table after a call, whatever raises, is a row of the table
  before the call or carries the times of an accepted input event.
\<close>

theorem stored_times:
  assumes "meetings_data = fetch_calendar_data fromisoformat events"
  shows "(normalize_event fromisoformat ev \<noteq> None \<longleftrightarrow> acceptable fromisoformat ev)
   \<and> (\<forall>m. normalize_event fromisoformat ev = Some m
          \<longrightarrow> micros (end_time m) \<le> micros (start_time m) \<longrightarrow> duration_minutes m \<le> 0)
   \<and> meetings_data = List.map_filter (normalize_event fromisoformat) events
   \<and> (connect_ok env \<longrightarrow> (\<forall>j < length meetings_data. \<not> raises env j) \<longrightarrow>
        (\<forall>i < length meetings_data. alone_in_batch meetings_data i \<longrightarrow>
           (\<exists>r \<in> set (meetings (snd (store_meetings_data env meetings_data clear_existing d))).
              carries_times (time_zone d) (meetings_data ! i) r
              \<and> c_event_id r = event_id (meetings_data ! i))))
   \<and> (\<forall>r \<in> set (meetings (snd (store_meetings_data env meetings_data clear_existing d))).
         r \<in> set (meetings d)
         \<or> (\<exists>ev \<in> set events. \<exists>m. normalize_event fromisoformat ev = Some m
               \<and> carries_times (time_zone d) m r))"
proof (intro conjI allI impI ballI)
  show "normalize_event fromisoformat ev \<noteq> None \<longleftrightarrow> acceptable fromisoformat ev"
    by (rule normalize_event_acceptable)
next
  fix m
  assume "normalize_event fromisoformat ev = Some m"
    and "micros (end_time m) \<le> micros (start_time m)"
  then show "duration_minutes m \<le> 0" by (rule normalize_event_nonpositive)
next
  show "meetings_data = List.map_filter (normalize_event fromisoformat) events"
    unfolding assms by (rule fetch_calendar_data_map_filter)
next
  fix i
  assume c: "connect_ok env" and quiet: "\<forall>j < length meetings_data. \<not> raises env j"
    and i: "i < length meetings_data" and alone: "alone_in_batch meetings_data i"
  from quiet i have "\<not> raises env i" by simp
  from store_meetings_data_row[OF c i this alone]
  show "\<exists>r \<in> set (meetings (snd (store_meetings_data env meetings_data clear_existing d))).
              carries_times (time_zone d) (meetings_data ! i) r
              \<and> c_event_id r = event_id (meetings_data ! i)" .
next
  fix r
  assume "r \<in> set (meetings (snd (store_meetings_data env meetings_data clear_existing d)))"
  from store_meetings_data_origin[OF this]
  show "r \<in> set (meetings d)
         \<or> (\<exists>ev \<in> set events. \<exists>m. normalize_event fromisoformat ev = Some m
               \<and> carries_times (time_zone d) m r)"
    unfolding assms by (auto simp: fetch_calendar_data_set)
qed

theorem stored_times_witness:
  "[instant_meeting] = fetch_calendar_data sample_fromisoformat [instant_event]
   \<and> acceptable sample_fromisoformat instant_event
   \<and> micros (end_time instant_meeting) = micros (start_time instant_meeting)
   \<and> duration_minutes instant_meeting = 0
   \<and> connect_ok sample_env \<and> (\<forall>j. \<not> raises sample_env j)
   \<and> alone_in_batch [instant_meeting] 0
   \<and> (\<exists>r \<in> set (meetings (snd (store_meetings_data sample_env [instant_meeting] False sample_db))).
         carries_times sample_zone instant_meeting r \<and> c_event_id r = Some ''abc123'')"
proof -
  have ms: "[instant_meeting] = fetch_calendar_data sample_fromisoformat [instant_event]"
    by (simp add: fetch_calendar_data_single normalize_instant)
  have alone: "alone_in_batch [instant_meeting] 0" by (simp add: alone_in_batch_def)
  have nr: "\<forall>j. \<not> raises sample_env j" by (simp add: sample_env_def)
  from stored_times[OF ms, of instant_event sample_env False sample_db]
  have acc: "acceptable sample_fromisoformat instant_event"
    and row: "\<exists>r \<in> set (meetings (snd (store_meetings_data sample_env [instant_meeting] False sample_db))).
              carries_times (time_zone sample_db) ([instant_meeting] ! 0) r
              \<and> c_event_id r = event_id ([instant_meeting] ! 0)"
    using normalize_instant sample_connect alone nr by auto
  from row have "\<exists>r \<in> set (meetings (snd (store_meetings_data sample_env [instant_meeting] False sample_db))).
         carries_times sample_zone instant_meeting r \<and> c_event_id r = Some ''abc123''"
    by (simp add: sample_db_def instant_meeting_def sample_meeting_def)
  with ms acc alone nr sample_connect show ?thesis
    by (simp add: instant_meeting_def sample_meeting_def)
qed


end
